theory Spec2Isabelle
  imports Main "HOL-Library.Word"
begin

unbundle bit_operations_syntax

section \<open>The 8T49N24x clock generator driver (clk-idt24x.c)\<close>

text \<open>
  The driver computes the PLL feedback divider and the output divider of channel Q2 for a
  requested frequency and writes them to the chip over a register map. The C integer types
  are machine words: \<open>u8\<close>, \<open>u16\<close>, \<open>u32\<close> and \<open>u64\<close> wrap around, comparisons are
  unsigned, and an assignment to a narrower type keeps the low bits (\<open>ucast\<close>).
\<close>

type_synonym u8 = "8 word"
type_synonym u16 = "16 word"
type_synonym u32 = "32 word"
type_synonym u64 = "64 word"

subsection \<open>Constants\<close>

definition IDT24x_MIN_FREQ :: u32 where "IDT24x_MIN_FREQ = 1000000"
definition IDT24x_MAX_FREQ :: u32 where "IDT24x_MAX_FREQ = 300000000"

definition IDT24x_VCO_MIN :: u32 where "IDT24x_VCO_MIN = 2999997000"
definition IDT24x_VCO_MAX :: u32 where "IDT24x_VCO_MAX = 4000004000"
definition IDT24x_VCO_OPT :: u32 where "IDT24x_VCO_OPT = 3500000000"
definition IDT24x_MIN_INT_DIVIDER :: u32 where "IDT24x_MIN_INT_DIVIDER = 6"

subsection \<open>Errors\<close>

text \<open>
  \<open>EINVAL\<close> is the driver's own \<open>-EINVAL\<close>. \<open>EBUS e\<close> is a nonzero code \<open>e\<close> that the
  register map returned for a transaction. \<open>DIVIDE_ERROR\<close> stands for a 64-bit division
  whose divisor is zero: the source does not check the divisor, and the kernel's division
  helpers have no defined result there.
\<close>

datatype error = EINVAL | EBUS int | DIVIDE_ERROR

text \<open>
  Modelled from the spec: \<open>div64_u64\<close> and \<open>div64_u64_rem\<close> are the kernel's 64-bit
  division helpers, declared outside the driver. Ratios use 64-bit unsigned arithmetic and
  division truncates toward zero; \<open>div64_u64_rem\<close> also yields the remainder.
\<close>

definition div64_u64 :: "u64 \<Rightarrow> u64 \<Rightarrow> error + u64" where
  "div64_u64 dividend divisor =
     (if divisor = 0 then Inl DIVIDE_ERROR else Inr (dividend div divisor))"

definition div64_u64_rem :: "u64 \<Rightarrow> u64 \<Rightarrow> error + (u64 \<times> u64)" where
  "div64_u64_rem dividend divisor =
     (if divisor = 0 then Inl DIVIDE_ERROR
      else Inr (dividend div divisor, dividend mod divisor))"

subsection \<open>Bit positions and masked fields\<close>

text \<open>
  \<open>bits_to_shift\<close> isolates the lowest set bit of the mask and locates it by five tests.
  The parameter \<open>mask\<close> of the source is \<open>msk\<close> here (\<open>mask\<close> is a constant of HOL);
  \<open>mask0\<close> is its value on entry. The counter \<open>c\<close> is an \<open>unsigned int\<close>; the result is
  returned as \<open>int\<close> and is read here as a natural number (it is at most 32).
\<close>

definition bits_to_shift :: "u32 \<Rightarrow> nat" where
  "bits_to_shift mask0 =
     (let msk = mask0 AND (NOT mask0 + 1);
          c0 = (32 :: u32);
          c1 = (if msk \<noteq> 0 then c0 - 1 else c0);
          c2 = (if msk AND 0x0000FFFF \<noteq> 0 then c1 - 16 else c1);
          c3 = (if msk AND 0x00FF00FF \<noteq> 0 then c2 - 8 else c2);
          c4 = (if msk AND 0x0F0F0F0F \<noteq> 0 then c3 - 4 else c3);
          c5 = (if msk AND 0x33333333 \<noteq> 0 then c4 - 2 else c4);
          c6 = (if msk AND 0x55555555 \<noteq> 0 then c5 - 1 else c5)
      in unat c6)"

definition mask_and_shift :: "u32 \<Rightarrow> u8 \<Rightarrow> u32" where
  "mask_and_shift val msk = drop_bit (bits_to_shift (ucast msk)) (val AND ucast msk)"

text \<open>
  The value \<open>i2cwritewithmask\<close> hands to \<open>i2cwrite\<close>:
  \<^verbatim>\<open>((val << bits_to_shift(mask)) & mask) | (original & ~mask)\<close>.
  The three \<open>u8\<close> operands are promoted to 32-bit \<open>int\<close>; the result is passed as
  \<open>unsigned int\<close>. \<open>merge_field\<close> is the expression with the shifted operand named, so
  that what it does with that operand can be stated whatever the shift produced (for a
  mask of 0 the shift count is 32, which C leaves undefined for a 32-bit operand;
  \<open>push_bit\<close> gives 0 there).
\<close>

definition merge_field :: "u32 \<Rightarrow> u8 \<Rightarrow> u8 \<Rightarrow> u32" where
  "merge_field shifted original msk =
     (shifted AND ucast msk) OR (ucast original AND NOT (ucast msk))"

definition i2cwritewithmask_val :: "u8 \<Rightarrow> u8 \<Rightarrow> u8 \<Rightarrow> u32" where
  "i2cwritewithmask_val val original msk =
     merge_field (push_bit (bits_to_shift (ucast msk)) (ucast val)) original msk"

text \<open>The number of trailing zero bits of a byte (8 for the byte 0).\<close>

definition trailing_zeros :: "u8 \<Rightarrow> nat" where
  "trailing_zeros m = length (takeWhile (\<lambda>i. \<not> bit m i) [0..<8])"

subsection \<open>Register offsets and masks\<close>

text \<open>
  The \<open>#define\<close>s of the source. An offset is used both as a \<open>u16\<close> field of
  \<open>struct clk_register_offsets\<close> and as an \<open>unsigned int\<close> argument, so the offsets are
  constants of any word length; the masks are bytes.
\<close>

definition IDT24x_REG_DBL_DIS :: "'a::len word" where "IDT24x_REG_DBL_DIS = 0x6C"
definition IDT24x_REG_DBL_DIS_MASK :: u8 where "IDT24x_REG_DBL_DIS_MASK = 0x01"
definition IDT24x_REG_DSM_INT_8 :: "'a::len word" where "IDT24x_REG_DSM_INT_8 = 0x25"
definition IDT24x_REG_DSM_INT_8_MASK :: u8 where "IDT24x_REG_DSM_INT_8_MASK = 0x01"
definition IDT24x_REG_DSM_INT_7_0 :: "'a::len word" where "IDT24x_REG_DSM_INT_7_0 = 0x26"
definition IDT24x_REG_DSMFRAC_20_16 :: "'a::len word" where "IDT24x_REG_DSMFRAC_20_16 = 0x28"
definition IDT24x_REG_DSMFRAC_20_16_MASK :: u8 where "IDT24x_REG_DSMFRAC_20_16_MASK = 0x1F"
definition IDT24x_REG_DSMFRAC_15_8 :: "'a::len word" where "IDT24x_REG_DSMFRAC_15_8 = 0x29"
definition IDT24x_REG_DSMFRAC_7_0 :: "'a::len word" where "IDT24x_REG_DSMFRAC_7_0 = 0x2A"
definition IDT24x_REG_OUTEN :: "'a::len word" where "IDT24x_REG_OUTEN = 0x39"
definition IDT24x_REG_Q_DIS :: "'a::len word" where "IDT24x_REG_Q_DIS = 0x6F"

definition IDT24x_REG_OUTEN0_MASK :: u8 where "IDT24x_REG_OUTEN0_MASK = 0x01"
definition IDT24x_REG_Q0_DIS_MASK :: u8 where "IDT24x_REG_Q0_DIS_MASK = 0x01"
definition IDT24x_REG_NS1_Q0 :: "'a::len word" where "IDT24x_REG_NS1_Q0 = 0x3F"
definition IDT24x_REG_NS1_Q0_MASK :: u8 where "IDT24x_REG_NS1_Q0_MASK = 0x03"
definition IDT24x_REG_NS2_Q0_15_8 :: "'a::len word" where "IDT24x_REG_NS2_Q0_15_8 = 0x40"
definition IDT24x_REG_NS2_Q0_7_0 :: "'a::len word" where "IDT24x_REG_NS2_Q0_7_0 = 0x41"

definition IDT24x_REG_OUTEN1_MASK :: u8 where "IDT24x_REG_OUTEN1_MASK = 0x02"
definition IDT24x_REG_Q1_DIS_MASK :: u8 where "IDT24x_REG_Q1_DIS_MASK = 0x02"
definition IDT24x_REG_N_Q1_17_16 :: "'a::len word" where "IDT24x_REG_N_Q1_17_16 = 0x42"
definition IDT24x_REG_N_Q1_17_16_MASK :: u8 where "IDT24x_REG_N_Q1_17_16_MASK = 0x03"
definition IDT24x_REG_N_Q1_15_8 :: "'a::len word" where "IDT24x_REG_N_Q1_15_8 = 0x43"
definition IDT24x_REG_N_Q1_7_0 :: "'a::len word" where "IDT24x_REG_N_Q1_7_0 = 0x44"
definition IDT24x_REG_NFRAC_Q1_27_24 :: "'a::len word" where "IDT24x_REG_NFRAC_Q1_27_24 = 0x57"
definition IDT24x_REG_NFRAC_Q1_27_24_MASK :: u8 where "IDT24x_REG_NFRAC_Q1_27_24_MASK = 0x0F"
definition IDT24x_REG_NFRAC_Q1_23_16 :: "'a::len word" where "IDT24x_REG_NFRAC_Q1_23_16 = 0x58"
definition IDT24x_REG_NFRAC_Q1_15_8 :: "'a::len word" where "IDT24x_REG_NFRAC_Q1_15_8 = 0x59"
definition IDT24x_REG_NFRAC_Q1_7_0 :: "'a::len word" where "IDT24x_REG_NFRAC_Q1_7_0 = 0x5A"

definition IDT24x_REG_OUTEN2_MASK :: u8 where "IDT24x_REG_OUTEN2_MASK = 0x04"
definition IDT24x_REG_Q2_DIS_MASK :: u8 where "IDT24x_REG_Q2_DIS_MASK = 0x04"
definition IDT24x_REG_N_Q2_17_16 :: "'a::len word" where "IDT24x_REG_N_Q2_17_16 = 0x45"
definition IDT24x_REG_N_Q2_17_16_MASK :: u8 where "IDT24x_REG_N_Q2_17_16_MASK = 0x03"
definition IDT24x_REG_N_Q2_15_8 :: "'a::len word" where "IDT24x_REG_N_Q2_15_8 = 0x46"
definition IDT24x_REG_N_Q2_7_0 :: "'a::len word" where "IDT24x_REG_N_Q2_7_0 = 0x47"
definition IDT24x_REG_NFRAC_Q2_27_24 :: "'a::len word" where "IDT24x_REG_NFRAC_Q2_27_24 = 0x5B"
definition IDT24x_REG_NFRAC_Q2_27_24_MASK :: u8 where "IDT24x_REG_NFRAC_Q2_27_24_MASK = 0x0F"
definition IDT24x_REG_NFRAC_Q2_23_16 :: "'a::len word" where "IDT24x_REG_NFRAC_Q2_23_16 = 0x5C"
definition IDT24x_REG_NFRAC_Q2_15_8 :: "'a::len word" where "IDT24x_REG_NFRAC_Q2_15_8 = 0x5D"
definition IDT24x_REG_NFRAC_Q2_7_0 :: "'a::len word" where "IDT24x_REG_NFRAC_Q2_7_0 = 0x5E"

definition IDT24x_REG_OUTEN3_MASK :: u8 where "IDT24x_REG_OUTEN3_MASK = 0x08"
definition IDT24x_REG_Q3_DIS_MASK :: u8 where "IDT24x_REG_Q3_DIS_MASK = 0x08"
definition IDT24x_REG_N_Q3_17_16 :: "'a::len word" where "IDT24x_REG_N_Q3_17_16 = 0x48"
definition IDT24x_REG_N_Q3_17_16_MASK :: u8 where "IDT24x_REG_N_Q3_17_16_MASK = 0x03"
definition IDT24x_REG_N_Q3_15_8 :: "'a::len word" where "IDT24x_REG_N_Q3_15_8 = 0x49"
definition IDT24x_REG_N_Q3_7_0 :: "'a::len word" where "IDT24x_REG_N_Q3_7_0 = 0x4A"
definition IDT24x_REG_NFRAC_Q3_27_24 :: "'a::len word" where "IDT24x_REG_NFRAC_Q3_27_24 = 0x5F"
definition IDT24x_REG_NFRAC_Q3_27_24_MASK :: u8 where "IDT24x_REG_NFRAC_Q3_27_24_MASK = 0x0F"
definition IDT24x_REG_NFRAC_Q3_23_16 :: "'a::len word" where "IDT24x_REG_NFRAC_Q3_23_16 = 0x60"
definition IDT24x_REG_NFRAC_Q3_15_8 :: "'a::len word" where "IDT24x_REG_NFRAC_Q3_15_8 = 0x61"
definition IDT24x_REG_NFRAC_Q3_7_0 :: "'a::len word" where "IDT24x_REG_NFRAC_Q3_7_0 = 0x62"

subsection \<open>The register map\<close>

text \<open>
  Modelled from the spec: the register write primitive \<open>regmap_write\<close> belongs to the
  kernel's register-map layer, outside the driver. It attempts one bus transaction on a
  byte-addressed register space and returns 0 or an error code. The model keeps a \<open>trace\<close>
  of the transactions attempted, oldest first, each with its register, value and outcome,
  and takes the outcomes of the coming transactions from \<open>replies\<close> (0 is success; once
  the list is used up every transaction succeeds), so that any pattern of transport failures
  can be stated.
\<close>

record regmap =
  replies :: "int list"
  trace :: "(u32 \<times> u32 \<times> int) list"

definition regmap_write :: "regmap \<Rightarrow> u32 \<Rightarrow> u32 \<Rightarrow> int \<times> regmap" where
  "regmap_write m reg val =
     (case replies m of
        [] \<Rightarrow> (0, m\<lparr>trace := trace m @ [(reg, val, 0)]\<rparr>)
      | e # es \<Rightarrow> (e, m\<lparr>replies := es, trace := trace m @ [(reg, val, e)]\<rparr>))"

text \<open>
  The \<open>do ... while (count++ <= maxAttempts)\<close> loop of \<open>regmapWriteWithRetry\<close>; the
  test compares the value of \<open>count\<close> before the increment. \<open>usleep_range\<close> only passes
  time.
\<close>

function regmapWriteWithRetry_loop ::
  "regmap \<Rightarrow> u32 \<Rightarrow> u32 \<Rightarrow> int \<Rightarrow> int \<Rightarrow> int \<times> regmap" where
  "regmapWriteWithRetry_loop m offset val maxAttempts count =
     (case regmap_write m offset val of
        (err, m') \<Rightarrow>
          if err = 0 then (0, m')
          else if count \<le> maxAttempts
               then regmapWriteWithRetry_loop m' offset val maxAttempts (count + 1)
               else (err, m'))"
  by pat_completeness auto
termination
  by (relation "measure (\<lambda>(m, offset, val, maxAttempts, count). nat (maxAttempts + 1 - count))")
     auto

definition regmapWriteWithRetry :: "regmap \<Rightarrow> u32 \<Rightarrow> u32 \<Rightarrow> int \<Rightarrow> int \<times> regmap" where
  "regmapWriteWithRetry m offset val maxAttempts =
     regmapWriteWithRetry_loop m offset val maxAttempts 1"

definition i2cwrite :: "regmap \<Rightarrow> u32 \<Rightarrow> u32 \<Rightarrow> int \<times> regmap" where
  "i2cwrite m reg val = regmapWriteWithRetry m reg val 5"

definition i2cwritewithmask :: "regmap \<Rightarrow> u32 \<Rightarrow> u8 \<Rightarrow> u8 \<Rightarrow> u8 \<Rightarrow> int \<times> regmap" where
  "i2cwritewithmask m reg val original msk =
     i2cwrite m reg (i2cwritewithmask_val val original msk)"

subsection \<open>Driver data\<close>

text \<open>
  The fields of \<open>struct clk_idt24x\<close> that the frequency path reads or writes. The
  fixed-size arrays (\<open>frequencies[4]\<close>, \<open>regN_Qx_17_16[3]\<close>, ...) are functions from the
  index; the source indexes them with 0 to 3 only.
\<close>

record clk_idt24x =
  regmap :: regmap
  min_freq :: u32
  max_freq :: u32
  input_clk_freq :: u32
  xtal_freq :: u32
  doubler_disabled :: bool
  frequencies :: "nat \<Rightarrow> u32"
  debugfs_frequencies :: "nat \<Rightarrow> u64"
  regDSM_INT_8 :: u8
  regDSMFRAC_20_16 :: u8
  regOUTENx :: u8
  regQxDIS :: u8
  regNS1_Q0 :: u8
  regN_Qx_17_16 :: "nat \<Rightarrow> u8"
  regNFRAC_Qx_27_24 :: "nat \<Rightarrow> u8"

record clk_register_offsets =
  oe_offset :: u16
  oe_mask :: u8
  dis_offset :: u16
  dis_mask :: u8
  n_17_16_offset :: u16
  n_17_16_mask :: u8
  n_15_8_offset :: u16
  n_7_0_offset :: u16
  nfrac_27_24_offset :: u16
  nfrac_27_24_mask :: u8
  nfrac_23_16_offset :: u16
  nfrac_15_8_offset :: u16
  nfrac_7_0_offset :: u16
  ns1_offset :: u16
  ns1_offset_mask :: u8
  ns2_15_8_offset :: u16
  ns2_7_0_offset :: u16

record idt24x_dividers =
  dsmint :: u16
  dsmfrac :: u32
  ns1_q0 :: u8
  ns2_q0 :: u16
  nint :: "nat \<Rightarrow> u32"
  nfrac :: "nat \<Rightarrow> u32"

text \<open>
  \<open>idt24x_get_offsets\<close> fills the caller's structure: for output 0 the enable, disable and
  two-stage divider fields, for outputs 1 to 3 the enable, disable and fractional divider
  fields; the other fields keep what the structure held. Any other output is \<open>-EINVAL\<close>.
\<close>

definition idt24x_get_offsets ::
  "u8 \<Rightarrow> clk_register_offsets \<Rightarrow> error + clk_register_offsets" where
  "idt24x_get_offsets output_num offsets =
     (if output_num = 0 then
        Inr (offsets\<lparr>oe_offset := IDT24x_REG_OUTEN, oe_mask := IDT24x_REG_OUTEN0_MASK,
                     dis_offset := IDT24x_REG_Q_DIS, dis_mask := IDT24x_REG_Q0_DIS_MASK,
                     ns1_offset := IDT24x_REG_NS1_Q0,
                     ns1_offset_mask := IDT24x_REG_NS1_Q0_MASK,
                     ns2_15_8_offset := IDT24x_REG_NS2_Q0_15_8,
                     ns2_7_0_offset := IDT24x_REG_NS2_Q0_7_0\<rparr>)
      else if output_num = 1 then
        Inr (offsets\<lparr>oe_offset := IDT24x_REG_OUTEN, oe_mask := IDT24x_REG_OUTEN1_MASK,
                     dis_offset := IDT24x_REG_Q_DIS, dis_mask := IDT24x_REG_Q1_DIS_MASK,
                     n_17_16_offset := IDT24x_REG_N_Q1_17_16,
                     n_17_16_mask := IDT24x_REG_N_Q1_17_16_MASK,
                     n_15_8_offset := IDT24x_REG_N_Q1_15_8,
                     n_7_0_offset := IDT24x_REG_N_Q1_7_0,
                     nfrac_27_24_offset := IDT24x_REG_NFRAC_Q1_27_24,
                     nfrac_27_24_mask := IDT24x_REG_NFRAC_Q1_27_24_MASK,
                     nfrac_23_16_offset := IDT24x_REG_NFRAC_Q1_23_16,
                     nfrac_15_8_offset := IDT24x_REG_NFRAC_Q1_15_8,
                     nfrac_7_0_offset := IDT24x_REG_NFRAC_Q1_7_0\<rparr>)
      else if output_num = 2 then
        Inr (offsets\<lparr>oe_offset := IDT24x_REG_OUTEN, oe_mask := IDT24x_REG_OUTEN2_MASK,
                     dis_offset := IDT24x_REG_Q_DIS, dis_mask := IDT24x_REG_Q2_DIS_MASK,
                     n_17_16_offset := IDT24x_REG_N_Q2_17_16,
                     n_17_16_mask := IDT24x_REG_N_Q2_17_16_MASK,
                     n_15_8_offset := IDT24x_REG_N_Q2_15_8,
                     n_7_0_offset := IDT24x_REG_N_Q2_7_0,
                     nfrac_27_24_offset := IDT24x_REG_NFRAC_Q2_27_24,
                     nfrac_27_24_mask := IDT24x_REG_NFRAC_Q2_27_24_MASK,
                     nfrac_23_16_offset := IDT24x_REG_NFRAC_Q2_23_16,
                     nfrac_15_8_offset := IDT24x_REG_NFRAC_Q2_15_8,
                     nfrac_7_0_offset := IDT24x_REG_NFRAC_Q2_7_0\<rparr>)
      else if output_num = 3 then
        Inr (offsets\<lparr>oe_offset := IDT24x_REG_OUTEN, oe_mask := IDT24x_REG_OUTEN3_MASK,
                     dis_offset := IDT24x_REG_Q_DIS, dis_mask := IDT24x_REG_Q3_DIS_MASK,
                     n_17_16_offset := IDT24x_REG_N_Q3_17_16,
                     n_17_16_mask := IDT24x_REG_N_Q3_17_16_MASK,
                     n_15_8_offset := IDT24x_REG_N_Q3_15_8,
                     n_7_0_offset := IDT24x_REG_N_Q3_7_0,
                     nfrac_27_24_offset := IDT24x_REG_NFRAC_Q3_27_24,
                     nfrac_27_24_mask := IDT24x_REG_NFRAC_Q3_27_24_MASK,
                     nfrac_23_16_offset := IDT24x_REG_NFRAC_Q3_23_16,
                     nfrac_15_8_offset := IDT24x_REG_NFRAC_Q3_15_8,
                     nfrac_7_0_offset := IDT24x_REG_NFRAC_Q3_7_0\<rparr>)
      else Inl EINVAL)"

text \<open>
  The callers declare their \<open>struct clk_register_offsets\<close> without initialising it. They
  read only fields that \<open>idt24x_get_offsets\<close> has set for the output at hand, so the
  contents before the call do not reach any result; the model starts from zeros.
\<close>

definition offsets_uninit :: clk_register_offsets where
  "offsets_uninit =
     \<lparr>oe_offset = 0, oe_mask = 0, dis_offset = 0, dis_mask = 0, n_17_16_offset = 0,
      n_17_16_mask = 0, n_15_8_offset = 0, n_7_0_offset = 0, nfrac_27_24_offset = 0,
      nfrac_27_24_mask = 0, nfrac_23_16_offset = 0, nfrac_15_8_offset = 0,
      nfrac_7_0_offset = 0, ns1_offset = 0, ns1_offset_mask = 0, ns2_15_8_offset = 0,
      ns2_7_0_offset = 0\<rparr>"

subsection \<open>The divider calculation\<close>

text \<open>
  The \<open>while\<close> loop of \<open>idt24x_calc_divs\<close>. Its state is the loop counter \<open>walk\<close> and the
  locals \<open>div\<close> (here \<open>dv\<close>), \<open>is_lower_vco\<close> and \<open>best_vco\<close>. \<open>walk += 2\<close> wraps in
  \<open>u32\<close>, so for \<open>max_div\<close> above \<open>2^32 - 3\<close> the loop would not end: the function is
  partial, and \<open>None\<close> is a run that never returns.
\<close>

partial_function (option) calc_divs_loop ::
  "u32 \<Rightarrow> u32 \<Rightarrow> u32 \<Rightarrow> u32 \<times> bool \<times> u32 \<Rightarrow> (u32 \<times> bool \<times> u32) option" where
  "calc_divs_loop freq max_div walk st =
     (if walk \<le> max_div then
        (case st of (dv, is_lower_vco, best_vco) \<Rightarrow>
           let vco = freq * walk;
               st' =
                 (if IDT24x_VCO_MIN \<le> vco \<and> vco \<le> IDT24x_VCO_MAX then
                    (if vco \<le> IDT24x_VCO_OPT then
                       (if best_vco < vco \<or> \<not> is_lower_vco then (walk, True, vco) else st)
                     else if \<not> is_lower_vco then
                       (if best_vco < vco then (walk, is_lower_vco, vco) else st)
                     else st)
                  else st)
           in calc_divs_loop freq max_div (walk + 2) st')
      else Some st)"

declare calc_divs_loop.simps [code]

text \<open>The phase-detector frequency: the reference, doubled unless the doubler is disabled.\<close>

definition pfd_of :: "clk_idt24x \<Rightarrow> u32" where
  "pfd_of data =
     (if input_clk_freq data = 0 then xtal_freq data else input_clk_freq data)
       * (if doubler_disabled data then 1 else 2)"

text \<open>
  \<open>idt24x_calc_divs\<close> fills the caller's \<open>divs\<close>; the model takes the structure as it
  comes in (the caller's is an uninitialised local) and returns it filled. The log calls
  (\<open>dev_err\<close>, \<open>dev_info\<close>) have no effect on the result: in particular the three tests
  of \<open>frequencies[0]\<close>, \<open>[1]\<close> and \<open>[3]\<close> only log and the function goes on.
\<close>

definition idt24x_calc_divs ::
  "clk_idt24x \<Rightarrow> idt24x_dividers \<Rightarrow> (error + idt24x_dividers) option" where
  "idt24x_calc_divs data divs =
     (let freq = frequencies data 2 in
      if freq = 0 then Some (Inl EINVAL)
      else
        let divs1 = divs\<lparr>dsmint := 0, dsmfrac := 0, ns1_q0 := 0, ns2_q0 := 0\<rparr>;
            min_div = IDT24x_MIN_INT_DIVIDER
        in case div64_u64 (ucast IDT24x_VCO_MAX) (ucast (freq * 2)) of
             Inl e \<Rightarrow> Some (Inl e)
           | Inr q \<Rightarrow>
               let max_div = (ucast (q * 2) :: u32) in
               (case calc_divs_loop freq max_div min_div (0, False, 0) of
                  None \<Rightarrow> None
                | Some (dv, is_lower_vco, best_vco) \<Rightarrow>
                    if dv \<noteq> 0 then
                      (case div64_u64 (ucast dv) 2 of
                         Inl e \<Rightarrow> Some (Inl e)
                       | Inr half \<Rightarrow>
                           let divs2 = divs1\<lparr>nint := (nint divs1)(1 := ucast half),
                                             nfrac := (nfrac divs1)(1 := 0)\<rparr>;
                               vco = dv * freq;
                               pfd = pfd_of data
                           in (case div64_u64_rem (ucast vco) (ucast pfd) of
                                 Inl e \<Rightarrow> Some (Inl e)
                               | Inr (quot, rem) \<Rightarrow>
                                   (case div64_u64 (push_bit 21 (rem * 1)) (ucast pfd) of
                                      Inl e \<Rightarrow> Some (Inl e)
                                    | Inr frac \<Rightarrow>
                                        Some (Inr (divs2\<lparr>dsmint := ucast quot,
                                                         dsmfrac := ucast frac\<rparr>)))))
                    else Some (Inl EINVAL)))"

subsection \<open>Programming the outputs\<close>

text \<open>
  The functions below change the driver data in place and may fail half-way, so each
  returns its result together with the data as it is left: \<open>Inr ()\<close> is the return
  value 0, \<open>Inl e\<close> an error. A failed \<open>i2cwrite\<close> is reported as \<open>EBUS\<close> with the code
  it returned.
\<close>

type_synonym step = "clk_idt24x \<Rightarrow> (error + unit) \<times> clk_idt24x"

definition write_reg :: "u32 \<Rightarrow> (clk_idt24x \<Rightarrow> u32) \<Rightarrow> step" where
  "write_reg reg val data =
     (case i2cwrite (regmap data) reg (val data) of
        (err, m) \<Rightarrow> (if err = 0 then Inr () else Inl (EBUS err), data\<lparr>regmap := m\<rparr>))"

definition write_reg_masked ::
  "u32 \<Rightarrow> (clk_idt24x \<Rightarrow> u8) \<Rightarrow> (clk_idt24x \<Rightarrow> u8) \<Rightarrow> u8 \<Rightarrow> step" where
  "write_reg_masked reg val original msk data =
     (case i2cwritewithmask (regmap data) reg (val data) (original data) msk of
        (err, m) \<Rightarrow> (if err = 0 then Inr () else Inl (EBUS err), data\<lparr>regmap := m\<rparr>))"

text \<open>
  A sequence of statements of the form \<open>err = ...; if (err) return err;\<close>: the steps run in
  order on the data the previous one left, and the first error ends the sequence.
\<close>

fun run_steps :: "step list \<Rightarrow> step" where
  "run_steps [] data = (Inr (), data)"
| "run_steps (f # fs) data =
     (case f data of
        (Inl e, data') \<Rightarrow> (Inl e, data')
      | (Inr u, data') \<Rightarrow> run_steps fs data')"

text \<open>A call whose return value the source drops.\<close>

definition ignore_result :: "step \<Rightarrow> step" where
  "ignore_result f data = (Inr (), snd (f data))"

text \<open>
  \<open>idt24x_enable_output\<close> updates both shadow bytes first and then writes them; a failed
  write returns at once, with the shadows already changed.
\<close>

definition idt24x_enable_output :: "u8 \<Rightarrow> bool \<Rightarrow> step" where
  "idt24x_enable_output output enable data =
     (case idt24x_get_offsets output offsets_uninit of
        Inl e \<Rightarrow> (Inl e, data)
      | Inr offsets \<Rightarrow>
          let data1 = data\<lparr>regOUTENx := regOUTENx data AND NOT (oe_mask offsets)\<rparr>;
              data2 =
                (if enable
                 then data1\<lparr>regOUTENx := regOUTENx data1 OR
                        ucast (push_bit (bits_to_shift (ucast (oe_mask offsets))) (1 :: u32))\<rparr>
                 else data1);
              data3 = data2\<lparr>regQxDIS := regQxDIS data2 AND NOT (dis_mask offsets)\<rparr>;
              data4 =
                (if \<not> enable
                 then data3\<lparr>regQxDIS := regQxDIS data3 OR
                        ucast (push_bit (bits_to_shift (ucast (dis_mask offsets))) (1 :: u32))\<rparr>
                 else data3)
          in run_steps
               [write_reg IDT24x_REG_OUTEN (\<lambda>d. ucast (regOUTENx d)),
                write_reg IDT24x_REG_Q_DIS (\<lambda>d. ucast (regQxDIS d))] data4)"

text \<open>
  The body of the \<open>for (x = 1; x <= 3; x++)\<close> loop of \<open>idt24x_update_device\<close>: the seven
  divider registers of output \<open>x\<close> when a frequency is requested for it, then the enable or
  disable of the output, whose result is dropped.
\<close>

definition update_output :: "idt24x_dividers \<Rightarrow> nat \<Rightarrow> step" where
  "update_output divs x data =
     run_steps
       [(\<lambda>d. if frequencies d x \<noteq> 0 then
               (case idt24x_get_offsets (of_nat x) offsets_uninit of
                  Inl e \<Rightarrow> (Inl e, d)
                | Inr offsets \<Rightarrow>
                    run_steps
                      [write_reg_masked (ucast (n_17_16_offset offsets))
                         (\<lambda>_. ucast (drop_bit 16 (nint divs (x - 1)) AND
                                     ucast (n_17_16_mask offsets)))
                         (\<lambda>d. regN_Qx_17_16 d (x - 1)) (n_17_16_mask offsets),
                       write_reg (ucast (n_15_8_offset offsets))
                         (\<lambda>_. drop_bit 8 (nint divs (x - 1)) AND 0xFF),
                       write_reg (ucast (n_7_0_offset offsets))
                         (\<lambda>_. nint divs (x - 1) AND 0xFF),
                       write_reg_masked (ucast (nfrac_27_24_offset offsets))
                         (\<lambda>_. ucast (drop_bit 24 (nfrac divs (x - 1)) AND
                                     ucast (nfrac_27_24_mask offsets)))
                         (\<lambda>d. regNFRAC_Qx_27_24 d (x - 1)) (nfrac_27_24_mask offsets),
                       write_reg (ucast (nfrac_23_16_offset offsets))
                         (\<lambda>_. drop_bit 16 (nfrac divs (x - 1)) AND 0xFF),
                       write_reg (ucast (nfrac_15_8_offset offsets))
                         (\<lambda>_. drop_bit 8 (nfrac divs (x - 1)) AND 0xFF),
                       write_reg (ucast (nfrac_7_0_offset offsets))
                         (\<lambda>_. nfrac divs (x - 1) AND 0xFF)] d)
             else (Inr (), d)),
        ignore_result (\<lambda>d. idt24x_enable_output (of_nat x) (frequencies d x \<noteq> 0) d)]
       data"

text \<open>
  \<open>idt24x_update_device\<close>: the feedback divider (DSM_INT, DSMFRAC), the divider of output
  0, the enable or disable of output 0, then outputs 1 to 3. The operands of the shifts and
  masks are promoted to 32 bits before the operation; a value passed as the \<open>u8\<close> parameter
  \<open>val\<close> of \<open>i2cwritewithmask\<close> keeps its low byte. The third statement passes
  \<open>data->regDSM_INT_8\<close> as the original byte of register DSMFRAC_20_16, as the source
  does.
\<close>

definition idt24x_update_device :: "idt24x_dividers \<Rightarrow> step" where
  "idt24x_update_device divs data =
     run_steps
       [write_reg_masked IDT24x_REG_DSM_INT_8
          (\<lambda>_. ucast (drop_bit 8 (ucast (dsmint divs) :: u32) AND
                      ucast IDT24x_REG_DSM_INT_8_MASK))
          regDSM_INT_8 IDT24x_REG_DSM_INT_8_MASK,
        write_reg IDT24x_REG_DSM_INT_7_0 (\<lambda>_. ucast (dsmint divs) AND 0xFF),
        write_reg_masked IDT24x_REG_DSMFRAC_20_16
          (\<lambda>_. ucast (drop_bit 16 (dsmfrac divs) AND ucast IDT24x_REG_DSMFRAC_20_16_MASK))
          regDSM_INT_8 IDT24x_REG_DSMFRAC_20_16_MASK,
        write_reg IDT24x_REG_DSMFRAC_15_8 (\<lambda>_. drop_bit 8 (dsmfrac divs) AND 0xFF),
        write_reg IDT24x_REG_DSMFRAC_7_0 (\<lambda>_. dsmfrac divs AND 0xFF),
        write_reg_masked IDT24x_REG_NS1_Q0
          (\<lambda>_. ucast (drop_bit 8 (ucast (ns1_q0 divs) :: u32) AND
                      ucast IDT24x_REG_NS1_Q0_MASK))
          regNS1_Q0 IDT24x_REG_NS1_Q0_MASK,
        write_reg IDT24x_REG_NS2_Q0_15_8
          (\<lambda>_. drop_bit 8 (ucast (ns2_q0 divs) :: u32) AND 0xFF),
        write_reg IDT24x_REG_NS2_Q0_7_0 (\<lambda>_. ucast (ns2_q0 divs) AND 0xFF),
        ignore_result (\<lambda>d. idt24x_enable_output 0 (frequencies d 0 \<noteq> 0) d),
        update_output divs 1,
        update_output divs 2,
        update_output divs 3]
       data"

subsection \<open>Setting the rate\<close>




subsection \<open>Notions used in the statements\<close>

text \<open>
  The bound of the divider search as \<open>idt24x_calc_divs\<close> computes it,
  \<^verbatim>\<open>div64_u64((u64)IDT24x_VCO_MAX, freq * 2) * 2\<close> stored in a \<open>u32\<close>.
\<close>

definition max_div_of :: "u32 \<Rightarrow> u32" where
  "max_div_of freq = ucast ((ucast IDT24x_VCO_MAX div ucast (freq * 2) :: u64) * 2)"

text \<open>
  A VCO frequency is legal between the two bounds. A candidate is an even divider between 6
  and the bound of the search whose VCO frequency, the \<open>u32\<close> product the loop computes,
  is legal.
\<close>

definition vco_in_range :: "u32 \<Rightarrow> bool" where
  "vco_in_range vco \<longleftrightarrow> IDT24x_VCO_MIN \<le> vco \<and> vco \<le> IDT24x_VCO_MAX"

definition candidate :: "u32 \<Rightarrow> u32 \<Rightarrow> u32 \<Rightarrow> bool" where
  "candidate freq max_div d \<longleftrightarrow>
     even d \<and> IDT24x_MIN_INT_DIVIDER \<le> d \<and> d \<le> max_div \<and> vco_in_range (freq * d)"

text \<open>One pass through the body of the search loop, and what the loop has established
  about its locals once the dividers described by \<open>Sc\<close> have been scanned.\<close>

definition calc_divs_step :: "u32 \<Rightarrow> u32 \<Rightarrow> u32 \<times> bool \<times> u32 \<Rightarrow> u32 \<times> bool \<times> u32" where
  "calc_divs_step freq walk st =
     (case st of (dv, is_lower_vco, best_vco) \<Rightarrow>
        let vco = freq * walk in
        if IDT24x_VCO_MIN \<le> vco \<and> vco \<le> IDT24x_VCO_MAX then
          (if vco \<le> IDT24x_VCO_OPT then
             (if best_vco < vco \<or> \<not> is_lower_vco then (walk, True, vco) else st)
           else if \<not> is_lower_vco then
             (if best_vco < vco then (walk, is_lower_vco, vco) else st)
           else st)
        else st)"

definition sel_inv :: "(u32 \<Rightarrow> bool) \<Rightarrow> u32 \<Rightarrow> u32 \<times> bool \<times> u32 \<Rightarrow> bool" where
  "sel_inv Sc freq st =
     (case st of (dv, low, best) \<Rightarrow>
        (dv = 0 \<longrightarrow> \<not> low \<and> best = 0 \<and> (\<forall>d. \<not> Sc d)) \<and>
        (dv \<noteq> 0 \<longrightarrow> Sc dv \<and> best = freq * dv) \<and>
        (low \<longrightarrow> dv \<noteq> 0 \<and> freq * dv \<le> IDT24x_VCO_OPT \<and>
           (\<forall>d. Sc d \<and> freq * d \<le> IDT24x_VCO_OPT \<longrightarrow> freq * d \<le> freq * dv)) \<and>
        (\<not> low \<longrightarrow> (\<forall>d. Sc d \<longrightarrow> IDT24x_VCO_OPT < freq * d \<and> freq * d \<le> freq * dv)))"

text \<open>
  Rounding a quotient to the nearest integer (halves upward), and the two feedback-divider
  fields as the specification words them: the floor of \<open>vco / pfd\<close> and the rounded
  \<open>(vco mod pfd) * 2^21 / pfd\<close>.
\<close>

definition round_div :: "nat \<Rightarrow> nat \<Rightarrow> nat" where
  "round_div a b = (2 * a + b) div (2 * b)"

definition spec_dsmint :: "nat \<Rightarrow> nat \<Rightarrow> nat" where
  "spec_dsmint vco pfd = vco div pfd"

definition spec_dsmfrac :: "nat \<Rightarrow> nat \<Rightarrow> nat" where
  "spec_dsmfrac vco pfd = round_div ((vco mod pfd) * 2 ^ 21) pfd"

text \<open>The feedback-divider fields of a result, when the calculation succeeded.\<close>

definition stored_dsm :: "(error + idt24x_dividers) option \<Rightarrow> (nat \<times> nat) option" where
  "stored_dsm r =
     (case r of Some (Inr d) \<Rightarrow> Some (unat (dsmint d), unat (dsmfrac d)) | _ \<Rightarrow> None)"

subsection \<open>Example devices\<close>

text \<open>
  A device as \<open>idt24x_probe\<close> leaves it: the frequency bounds of the chip, a 25 MHz crystal
  with the doubler enabled, nothing requested, and some contents of the shadow registers;
  the bus never fails. \<open>stack_divs\<close> stands for the contents of an uninitialised
  \<open>struct idt24x_dividers\<close>.
\<close>

definition probed :: clk_idt24x where
  "probed =
     \<lparr>regmap = \<lparr>replies = [], trace = []\<rparr>,
      min_freq = IDT24x_MIN_FREQ, max_freq = IDT24x_MAX_FREQ,
      input_clk_freq = 0, xtal_freq = 25000000, doubler_disabled = False,
      frequencies = (\<lambda>_. 0), debugfs_frequencies = (\<lambda>_. 0),
      regDSM_INT_8 = 0, regDSMFRAC_20_16 = 0xE5, regOUTENx = 0, regQxDIS = 0x0F,
      regNS1_Q0 = 0xFF, regN_Qx_17_16 = (\<lambda>_. 0xFF), regNFRAC_Qx_27_24 = (\<lambda>_. 0xFF)\<rparr>"

definition stack_divs :: idt24x_dividers where
  "stack_divs =
     \<lparr>dsmint = 7, dsmfrac = 7, ns1_q0 = 7, ns2_q0 = 7, nint = (\<lambda>_. 9), nfrac = (\<lambda>_. 9)\<rparr>"

text \<open>The same device with 125 MHz requested on Q2.\<close>

definition q2_125MHz :: clk_idt24x where
  "q2_125MHz = probed\<lparr>frequencies := (frequencies probed)(2 := 125000000)\<rparr>"

text \<open>The dividers the calculation returns for it.\<close>

definition divs_125MHz :: idt24x_dividers where
  "divs_125MHz =
     \<lparr>dsmint = 70, dsmfrac = 0, ns1_q0 = 0, ns2_q0 = 0,
      nint = (\<lambda>_. 9)(1 := 14), nfrac = (\<lambda>_. 9)(1 := 0)\<rparr>"

text \<open>125 MHz on Q2 from a 44.1 kHz crystal with the doubler disabled.\<close>

definition q2_125MHz_slow_ref :: clk_idt24x where
  "q2_125MHz_slow_ref = q2_125MHz\<lparr>xtal_freq := 44100, doubler_disabled := True\<rparr>"

text \<open>125 MHz on Q2 together with a request of 100 MHz on Q1.\<close>

definition q1_and_q2 :: clk_idt24x where
  "q1_and_q2 = q2_125MHz\<lparr>frequencies := (frequencies q2_125MHz)(1 := 100000000)\<rparr>"

subsection \<open>Bus traffic\<close>

text \<open>
  \<open>wrote d d' new\<close>: from \<open>d\<close> to \<open>d'\<close> the transactions \<open>new\<close> were attempted on the bus, in
  this order. A step \<open>extends\<close> the trace when it only ever adds transactions.
\<close>

definition wrote :: "clk_idt24x \<Rightarrow> clk_idt24x \<Rightarrow> (u32 \<times> u32 \<times> int) list \<Rightarrow> bool" where
  "wrote d d' new \<longleftrightarrow> trace (regmap d') = trace (regmap d) @ new"

definition extends :: "step \<Rightarrow> bool" where
  "extends f \<longleftrightarrow> (\<forall>d r d'. f d = (r, d') \<longrightarrow> (\<exists>new. wrote d d' new))"

text \<open>
  The two shadow bytes as \<open>idt24x_enable_output\<close> leaves them for an output 0 to 3: the bit
  of the output is cleared in both, then set in the enable byte when enabling and in the
  disable byte when disabling.
\<close>

definition outen_after :: "u8 \<Rightarrow> bool \<Rightarrow> u8 \<Rightarrow> u8" where
  "outen_after output enable x =
     (x AND NOT (push_bit (unat output) 1)) OR (if enable then push_bit (unat output) 1 else 0)"

definition qdis_after :: "u8 \<Rightarrow> bool \<Rightarrow> u8 \<Rightarrow> u8" where
  "qdis_after output enable x =
     (x AND NOT (push_bit (unat output) 1)) OR (if enable then 0 else push_bit (unat output) 1)"

section \<open>Masked register writes\<close>

text \<open>
  For a byte other than 0, \<open>bits_to_shift\<close> returns the number of trailing zero bits;
  the 255 bytes are checked one by one.
\<close>

lemma bits_to_shift_bytes:
  "\<forall>n \<in> set [1..<256]. bits_to_shift (ucast (of_nat n :: u8)) = trailing_zeros (of_nat n)"
  by code_simp

lemma bits_to_shift_trailing_zeros:
  assumes "M \<noteq> 0"
  shows "bits_to_shift (ucast M) = trailing_zeros (M :: u8)"
proof -
  have lt: "unat M < 256" using unsigned_less [of M, where ?'a = nat] by simp
  have "unat M \<noteq> 0" using assms by (simp add: unat_eq_0)
  then have "unat M \<in> set [1..<256]" using lt by simp
  then have "bits_to_shift (ucast (of_nat (unat M) :: u8)) = trailing_zeros (of_nat (unat M))"
    using bits_to_shift_bytes by blast
  then show ?thesis by simp
qed

text \<open>With a mask of 0 the shifted operand does not reach the result, whatever it is.\<close>

lemma merge_field_mask_0: "merge_field x S 0 = ucast S"
  by (simp add: merge_field_def)

lemma masked_value_byte:
  "i2cwritewithmask_val V S M = ucast ((push_bit (trailing_zeros M) V AND M) OR (S AND NOT M))"
proof (cases "M = 0")
  case True
  then show ?thesis by (simp add: i2cwritewithmask_val_def merge_field_def)
next
  case False
  show ?thesis
    unfolding i2cwritewithmask_val_def merge_field_def bits_to_shift_trailing_zeros [OF False]
    by (rule bit_word_eqI) (auto simp: bit_simps dest: bit_imp_le_length)
qed

lemma masked_value_frame:
  "\<not> bit M n \<Longrightarrow> bit (i2cwritewithmask_val V S M) n = bit S n"
  unfolding i2cwritewithmask_val_def merge_field_def
  by (auto simp: bit_simps dest: bit_imp_le_length)

text \<open>
  C5. For all bytes \<open>S\<close> (shadow), \<open>M\<close> (mask) and \<open>V\<close> (field value), the value that
  \<open>i2cwritewithmask\<close> passes to \<open>i2cwrite\<close> is the byte
  \<open>((V << tz M) AND M) OR (S AND NOT M)\<close>, where \<open>tz M\<close> is the number of trailing zero
  bits of \<open>M\<close>; at every bit position outside \<open>M\<close> it has the bit of \<open>S\<close>.
\<close>

theorem i2cwritewithmask_merges:
  "i2cwritewithmask m reg V S M =
     i2cwrite m reg (ucast ((push_bit (trailing_zeros M) V AND M) OR (S AND NOT M)))
   \<and> (\<forall>n. \<not> bit M n \<longrightarrow>
         bit (ucast ((push_bit (trailing_zeros M) V AND M) OR (S AND NOT M)) :: u32) n
           = bit S n)"
proof -
  have "\<not> bit M n \<longrightarrow>
      bit (ucast ((push_bit (trailing_zeros M) V AND M) OR (S AND NOT M)) :: u32) n = bit S n"
    for n
    using masked_value_frame [of M n V S] by (simp add: masked_value_byte)
  then show ?thesis by (simp add: i2cwritewithmask_def masked_value_byte)
qed

theorem i2cwritewithmask_merges_witness:
  "i2cwritewithmask \<lparr>replies = [], trace = []\<rparr> 0x28 0x0A 0xE5 0x1F =
     i2cwrite \<lparr>replies = [], trace = []\<rparr> 0x28 (0xEA :: u32)
   \<and> \<not> bit (0x1F :: u8) 6 \<and> bit (0xEA :: u32) 6 = bit (0xE5 :: u8) 6"
proof -
  have tz: "trailing_zeros 0x1F = 0" by code_simp
  have nb: "\<not> bit (0x1F :: u8) 6" by simp
  have v: "(ucast ((push_bit 0 (0x0A :: u8) AND 0x1F) OR (0xE5 AND NOT 0x1F)) :: u32) = 0xEA"
    by simp
  show ?thesis
    using i2cwritewithmask_merges [of "\<lparr>replies = [], trace = []\<rparr>" "0x28" "0x0A" "0xE5" "0x1F"]
      nb
    by (simp add: tz v)
qed

section \<open>The divider search\<close>

text \<open>The loop, one pass at a time.\<close>

lemma calc_divs_loop_unfold:
  "calc_divs_loop freq max_div walk st =
     (if walk \<le> max_div then calc_divs_loop freq max_div (walk + 2) (calc_divs_step freq walk st)
      else Some st)"
  by (subst calc_divs_loop.simps) (simp add: calc_divs_step_def Let_def split: prod.splits)

text \<open>
  As long as the bound of the search is at most \<open>2^32 - 3\<close>, \<open>walk += 2\<close> does not wrap
  inside the loop.
\<close>

lemma unat_walk_plus2:
  fixes walk max_div :: u32
  assumes "walk \<le> max_div" and "unat max_div \<le> 4294967293"
  shows "unat (walk + 2) = unat walk + 2"
proof -
  have "unat walk \<le> unat max_div" using assms(1) by (simp add: word_le_nat_alt)
  then have "unat walk + unat (2 :: u32) < 2 ^ LENGTH(32)" using assms(2) by simp
  then have "unat (walk + 2) = unat walk + unat (2 :: u32)"
    by (simp only: unat_add_lem [THEN iffD1])
  then show ?thesis by simp
qed

text \<open>
  The invariant rule of the loop: under that bound the loop returns, and a property that
  holds on entry and is kept by every pass holds of the result, for a counter beyond the
  bound.
\<close>

lemma calc_divs_loop_rule:
  fixes max_div :: u32
  assumes bound: "unat max_div \<le> 4294967293"
    and init: "P walk st"
    and pres: "\<And>w s. P w s \<Longrightarrow> w \<le> max_div \<Longrightarrow> P (w + 2) (calc_divs_step freq w s)"
  shows "\<exists>w' r. calc_divs_loop freq max_div walk st = Some r \<and> P w' r \<and> max_div < w'"
  using init
proof (induction "unat max_div + 1 - unat walk" arbitrary: walk st rule: less_induct)
  case less
  show ?case
  proof (cases "walk \<le> max_div")
    case True
    have le: "unat walk \<le> unat max_div" using True by (simp add: word_le_nat_alt)
    have step: "unat (walk + 2) = unat walk + 2" by (rule unat_walk_plus2 [OF True bound])
    have "unat max_div + 1 - unat (walk + 2) < unat max_div + 1 - unat walk"
      using le step by simp
    moreover have "P (walk + 2) (calc_divs_step freq walk st)"
      by (rule pres [OF less.prems True])
    ultimately have "\<exists>w' r. calc_divs_loop freq max_div (walk + 2) (calc_divs_step freq walk st) = Some r
        \<and> P w' r \<and> max_div < w'"
      by (rule less.hyps)
    then show ?thesis
      by (subst calc_divs_loop_unfold) (simp add: True)
  next
    case False
    then have "max_div < walk" by simp
    moreover have "calc_divs_loop freq max_div walk st = Some st"
      by (subst calc_divs_loop_unfold) (simp add: False)
    ultimately show ?thesis using less.prems by blast
  qed
qed


text \<open>
  One pass keeps \<open>sel_inv\<close> when the scanned dividers grow by the divider at hand, if
  its VCO frequency is legal. The cases are those of the two nested tests of the source.
\<close>

lemma sel_inv_step:
  assumes inv: "sel_inv Sc freq st"
    and sc: "\<And>d. Sc' d \<longleftrightarrow> Sc d \<or> (d = w \<and> vco_in_range (freq * w))"
    and w0: "w \<noteq> 0"
  shows "sel_inv Sc' freq (calc_divs_step freq w st)"
proof -
  obtain dv low best where st: "st = (dv, low, best)" by (cases st)
  define v where "v = freq * w"
  have i1: "dv = 0 \<Longrightarrow> \<not> low \<and> best = 0 \<and> (\<forall>d. \<not> Sc d)"
    and i2: "dv \<noteq> 0 \<Longrightarrow> Sc dv \<and> best = freq * dv"
    and i3: "low \<Longrightarrow> dv \<noteq> 0 \<and> freq * dv \<le> IDT24x_VCO_OPT \<and>
           (\<forall>d. Sc d \<and> freq * d \<le> IDT24x_VCO_OPT \<longrightarrow> freq * d \<le> freq * dv)"
    and i4: "\<not> low \<Longrightarrow> (\<forall>d. Sc d \<longrightarrow> IDT24x_VCO_OPT < freq * d \<and> freq * d \<le> freq * dv)"
    using inv by (simp_all add: sel_inv_def st)
  have vmin: "(0 :: u32) < IDT24x_VCO_MIN" by (simp add: IDT24x_VCO_MIN_def)
  show ?thesis
  proof (cases "vco_in_range v")
    case False
    then have same: "\<And>d. Sc' d \<longleftrightarrow> Sc d" by (simp add: sc v_def)
    have "calc_divs_step freq w st = st"
      using False by (auto simp: calc_divs_step_def st vco_in_range_def v_def Let_def)
    then show ?thesis using inv by (simp add: sel_inv_def same)
  next
    case True
    then have sc2: "\<And>d. Sc' d \<longleftrightarrow> Sc d \<or> d = w" by (simp add: sc v_def)
    have rng: "IDT24x_VCO_MIN \<le> v" "v \<le> IDT24x_VCO_MAX"
      using True by (simp_all add: vco_in_range_def)
    have vpos: "0 < v" using vmin rng(1) by simp
    show ?thesis
    proof (cases "v \<le> IDT24x_VCO_OPT")
      case lowv: True
      show ?thesis
      proof (cases "best < v \<or> \<not> low")
        case True
        have step: "calc_divs_step freq w st = (w, True, v)"
          using True lowv rng by (simp add: calc_divs_step_def st v_def)
        have "\<And>d. Sc d \<Longrightarrow> freq * d \<le> IDT24x_VCO_OPT \<Longrightarrow> freq * d \<le> v"
        proof -
          fix d assume d: "Sc d" "freq * d \<le> IDT24x_VCO_OPT"
          then have low using i4 by fastforce
          then have "best < v" using True by simp
          moreover have "freq * d \<le> freq * dv" using i3 [OF \<open>low\<close>] d by blast
          moreover have "best = freq * dv" using i3 [OF \<open>low\<close>] i2 by blast
          ultimately show "freq * d \<le> v" by simp
        qed
        then show ?thesis
          using lowv w0 by (auto simp: sel_inv_def step sc2 v_def)
      next
        case False
        then have low: low and nb: "v \<le> best" by auto
        have step: "calc_divs_step freq w st = st"
          using False lowv rng by (auto simp: calc_divs_step_def st v_def)
        have b: "best = freq * dv" using i3 [OF low] i2 by blast
        have "sel_inv Sc' freq st"
          using i3 [OF low] i2 nb b low by (auto simp: sel_inv_def st sc2 v_def)
          then show ?thesis by (simp only: step)
      qed
    next
      case highv: False
      show ?thesis
      proof (cases low)
        case True
        have step: "calc_divs_step freq w st = st"
          using True highv rng by (auto simp: calc_divs_step_def st v_def)
        have "sel_inv Sc' freq st"
          using i3 [OF True] i2 True highv by (auto simp: sel_inv_def st sc2 v_def)
          then show ?thesis by (simp only: step)
      next
        case nl: False
        show ?thesis
        proof (cases "best < v")
          case True
          have step: "calc_divs_step freq w st = (w, False, v)"
            using True nl highv rng by (auto simp: calc_divs_step_def st v_def)
          have "\<And>d. Sc d \<Longrightarrow> IDT24x_VCO_OPT < freq * d \<and> freq * d \<le> v"
          proof -
            fix d assume d: "Sc d"
            then have "dv \<noteq> 0" using i1 by blast
            then have "best = freq * dv" using i2 by blast
            moreover have "IDT24x_VCO_OPT < freq * d \<and> freq * d \<le> freq * dv"
              using i4 [OF nl] d by blast
            ultimately show "IDT24x_VCO_OPT < freq * d \<and> freq * d \<le> v" using True by auto
          qed
          then show ?thesis
            using highv w0 by (auto simp: sel_inv_def step sc2 v_def)
        next
          case False
          have step: "calc_divs_step freq w st = st"
            using False nl highv rng by (auto simp: calc_divs_step_def st v_def)
          have "dv \<noteq> 0"
          proof
            assume "dv = 0"
            then have "best = 0" using i1 by blast
            then show False using False vpos by simp
          qed
          then have b: "best = freq * dv" and sdv: "Sc dv" using i2 by blast+
          have "sel_inv Sc' freq st"
            using i4 [OF nl] nl b sdv False highv \<open>dv \<noteq> 0\<close>
            by (auto simp: sel_inv_def st sc2 v_def)
            then show ?thesis by (simp only: step)
        qed
      qed
    qed
  qed
qed


lemma even_unat_word: "even (unat (w :: u32)) = even w"
  by (metis even_of_nat mult.right_neutral unsigned_1 word_arith_nat_mult)

lemma less_plus2_even:
  fixes w d max_div :: u32
  assumes "w \<le> max_div" "unat max_div \<le> 4294967293" "even w" "even d"
  shows "d < w + 2 \<longleftrightarrow> d < w \<or> d = w"
proof -
  have s: "unat (w + 2) = unat w + 2" by (rule unat_walk_plus2 [OF assms(1,2)])
  have ew: "even (unat w)" using assms(3) by (simp only: even_unat_word)
  have ed: "even (unat d)" using assms(4) by (simp only: even_unat_word)
  have "d < w + 2 \<longleftrightarrow> unat d < unat w + 2" by (simp add: word_less_nat_alt s)
  also have "\<dots> \<longleftrightarrow> unat d < unat w \<or> unat d = unat w" using ew ed by presburger
  also have "\<dots> \<longleftrightarrow> d < w \<or> d = w" by (simp add: word_less_nat_alt word_unat_eq_iff)
  finally show ?thesis .
qed

lemma unat_ucast_u32_u64: "unat (ucast (w :: u32) :: u64) = unat w"
proof -
  have "unat w < 2 ^ 64" using unsigned_less [of w, where ?'a = nat] by simp
  then show ?thesis by (simp add: unsigned_ucast_eq take_bit_nat_eq_self)
qed

lemma unat_ucast_u64_u32: "unat (ucast (w :: u64) :: u32) = unat w mod 2 ^ 32"
  by (simp add: unsigned_ucast_eq take_bit_eq_mod)

lemma unat_ucast_u64_u16: "unat (ucast (w :: u64) :: u16) = unat w mod 2 ^ 16"
  by (simp add: unsigned_ucast_eq take_bit_eq_mod)

text \<open>The bound of the search is at most 4,000,004,000, so the loop returns.\<close>

lemma unat_max_div_of:
  assumes "freq * 2 \<noteq> 0"
  shows "unat (max_div_of freq) = (4000004000 div unat (freq * 2)) * 2"
    and "unat (max_div_of freq) \<le> 4000004000"
proof -
  define x where "x = unat (freq * 2)"
  have x0: "x \<noteq> 0" using assms by (simp add: x_def unat_eq_0)
  have ev: "even (freq * 2)" by simp
  then have "even x" by (simp only: x_def even_unat_word)
  then have x2: "2 \<le> x" using x0 by presburger
  have q: "unat ((ucast IDT24x_VCO_MAX :: u64) div ucast (freq * 2)) = 4000004000 div x"
    by (simp add: unat_div IDT24x_VCO_MAX_def x_def unat_ucast_u32_u64)
  have "4000004000 div x \<le> 4000004000 div 2" using x2 by (intro div_le_mono2) simp_all
  then have le: "(4000004000 div x) * 2 \<le> (4000004000 :: nat)" by simp
  define qq where "qq = (ucast IDT24x_VCO_MAX :: u64) div ucast (freq * 2)"
  have "unat qq * unat (2 :: u64) < 2 ^ LENGTH(64)" using le by (simp add: qq_def q)
  then have "unat (qq * 2) = unat qq * unat (2 :: u64)" by (simp only: unat_mult_lem)
  then have "unat (((ucast IDT24x_VCO_MAX :: u64) div ucast (freq * 2)) * 2) = (4000004000 div x) * 2"
    by (simp add: qq_def q)
  then show "unat (max_div_of freq) = (4000004000 div unat (freq * 2)) * 2"
    using le by (simp add: max_div_of_def unat_ucast_u64_u32 x_def)
  then show "unat (max_div_of freq) \<le> 4000004000" using le by (simp add: x_def)
qed


text \<open>
  The search as \<open>idt24x_calc_divs\<close> starts it returns, with \<open>sel_inv\<close> for all
  candidates.
\<close>

lemma calc_divs_loop_result:
  assumes f2: "freq * 2 \<noteq> 0"
  shows "\<exists>st. calc_divs_loop freq (max_div_of freq) IDT24x_MIN_INT_DIVIDER (0, False, 0) = Some st
           \<and> sel_inv (candidate freq (max_div_of freq)) freq st"
proof -
  define md where "md = max_div_of freq"
  define P where "P = (\<lambda>w st. even w \<and> 6 \<le> w \<and> sel_inv (\<lambda>d. candidate freq md d \<and> d < w) freq st)"
  have bound: "unat md \<le> 4294967293"
    using unat_max_div_of(2) [OF f2] by (simp add: md_def)
  have init: "P 6 (0, False, 0)"
    by (auto simp: P_def sel_inv_def candidate_def IDT24x_MIN_INT_DIVIDER_def)
  have pres: "P (w + 2) (calc_divs_step freq w s)" if p: "P w s" and le: "w \<le> md" for w s
  proof -
    have ew: "even w" and w6: "6 \<le> w"
      and inv: "sel_inv (\<lambda>d. candidate freq md d \<and> d < w) freq s"
      using p by (simp_all add: P_def)
    have lt: "d < w + 2 \<longleftrightarrow> d < w \<or> d = w" if "even d" for d
      by (rule less_plus2_even [OF le bound ew that])
    have w2: "w < w + 2" using lt [OF ew] by simp
    have w0: "w \<noteq> 0" using w6 by auto
    have sc: "(candidate freq md d \<and> d < w + 2) \<longleftrightarrow>
        (candidate freq md d \<and> d < w) \<or> (d = w \<and> vco_in_range (freq * w))" for d
      using lt [of d] ew w6 le by (auto simp: candidate_def IDT24x_MIN_INT_DIVIDER_def)
    have "sel_inv (\<lambda>d. candidate freq md d \<and> d < w + 2) freq (calc_divs_step freq w s)"
      by (rule sel_inv_step [OF inv sc w0])
    moreover have "6 \<le> w + 2" using w6 w2 by simp
    ultimately show ?thesis using ew by (simp add: P_def)
  qed
  obtain w' r where r: "calc_divs_loop freq md 6 (0, False, 0) = Some r" "P w' r" "md < w'"
    using calc_divs_loop_rule [of md P 6 "(0, False, 0)" freq, OF bound init pres] by blast
  have "(candidate freq md d \<and> d < w') = candidate freq md d" for d
    using r(3) by (auto simp: candidate_def)
  then have "sel_inv (candidate freq md) freq r" using r(2) by (simp add: P_def)
  then show ?thesis using r(1) by (simp add: md_def IDT24x_MIN_INT_DIVIDER_def)
qed

subsection \<open>The result of the calculation\<close>

lemma ucast_u32_u64_eq_0: "(ucast (x :: u32) :: u64) = 0 \<longleftrightarrow> x = 0"
proof -
  have "(ucast x :: u64) = 0 \<longleftrightarrow> unat (ucast x :: u64) = 0" by (simp add: unat_eq_0)
  also have "\<dots> \<longleftrightarrow> x = 0" by (simp add: unat_ucast_u32_u64 unat_eq_0)
  finally show ?thesis .
qed

lemma calc_divs_eq:
  assumes f: "frequencies data 2 = freq" and f2: "freq * 2 \<noteq> 0"
    and loop: "calc_divs_loop freq (max_div_of freq) IDT24x_MIN_INT_DIVIDER (0, False, 0)
                 = Some (dv, low, best)"
  shows "idt24x_calc_divs data divs =
    Some (if dv = 0 then Inl EINVAL
          else if pfd_of data = 0 then Inl DIVIDE_ERROR
          else Inr (divs\<lparr>dsmint := ucast ((ucast (dv * freq) :: u64) div ucast (pfd_of data)),
                         dsmfrac := ucast (push_bit 21 ((ucast (dv * freq) :: u64) mod
                                      ucast (pfd_of data)) div ucast (pfd_of data)),
                         ns1_q0 := 0, ns2_q0 := 0,
                         nint := (nint divs)(1 := ucast ((ucast dv :: u64) div 2)),
                         nfrac := (nfrac divs)(1 := 0)\<rparr>))"
proof -
  have f0: "freq \<noteq> 0" using f2 by auto
  have md: "(ucast ((ucast IDT24x_VCO_MAX div ucast (freq * 2) :: u64) * 2) :: u32) = max_div_of freq"
    by (simp add: max_div_of_def)
  show ?thesis
    unfolding idt24x_calc_divs_def Let_def f div64_u64_def div64_u64_rem_def
    using f0 f2 loop
    by (simp add: ucast_u32_u64_eq_0 md)
qed

text \<open>\<open>idt24x_calc_divs\<close> returns on every input: the search never runs forever.\<close>

lemma calc_divs_returns: "\<exists>r. idt24x_calc_divs data divs = Some r"
proof (cases "frequencies data 2 * 2 = 0")
  case True
  then show ?thesis
    by (simp add: idt24x_calc_divs_def Let_def div64_u64_def ucast_u32_u64_eq_0)
next
  case False
  obtain dv low best where
    "calc_divs_loop (frequencies data 2) (max_div_of (frequencies data 2))
       IDT24x_MIN_INT_DIVIDER (0, False, 0) = Some (dv, low, best)"
    using calc_divs_loop_result [OF False] by (metis prod_cases3)
  then show ?thesis using calc_divs_eq [OF refl False] by simp
qed

lemma unat_freq_mult:
  fixes freq d :: u32
  assumes f0: "freq \<noteq> 0" and fb: "unat freq < 2147483648" and d: "d \<le> max_div_of freq"
  shows "unat (freq * d) = unat freq * unat d"
proof -
  define f where "f = unat freq"
  have fpos: "0 < f" using f0 by (simp add: f_def unat_gt_0)
  have "unat freq * unat (2 :: u32) < 2 ^ LENGTH(32)" using fb by simp
  then have "unat (freq * 2) = unat freq * unat (2 :: u32)" by (simp only: unat_mult_lem)
  then have u2: "unat (freq * 2) = f * 2" by (simp add: f_def)
  then have f2: "freq * 2 \<noteq> 0" using fpos by (metis mult_eq_0_iff unat_0 zero_neq_numeral less_numeral_extra(3))
  have md: "unat (max_div_of freq) = (4000004000 div (f * 2)) * 2"
    using unat_max_div_of(1) [OF f2] by (simp add: u2)
  have "unat d \<le> (4000004000 div (f * 2)) * 2" using d by (simp add: word_le_nat_alt md)
  then have "f * unat d \<le> f * ((4000004000 div (f * 2)) * 2)" by (rule mult_le_mono2)
  also have "\<dots> = (f * 2) * (4000004000 div (f * 2))" by (simp add: mult.commute mult.left_commute)
  also have "\<dots> \<le> 4000004000" by simp
  finally have "unat freq * unat d < 2 ^ LENGTH(32)" by (simp add: f_def)
  then show ?thesis by (simp only: unat_mult_lem)
qed

lemma max_div_of_freq2_0: "freq * 2 = 0 \<Longrightarrow> max_div_of freq = 0"
  by (simp add: max_div_of_def)

lemma candidate_freq2: "candidate freq (max_div_of freq) c \<Longrightarrow> freq * 2 \<noteq> 0"
  by (auto simp: candidate_def IDT24x_MIN_INT_DIVIDER_def dest: max_div_of_freq2_0)

lemma unat_half_even:
  fixes dv :: u32
  assumes "even dv"
  shows "unat (ucast ((ucast dv :: u64) div 2) :: u32) * 2 = unat dv"
proof -
  have e: "even (unat dv)" using assms by (simp only: even_unat_word)
  have "unat ((ucast dv :: u64) div 2) = unat dv div 2"
    by (simp add: unat_div unat_ucast_u32_u64)
  moreover have "unat dv div 2 < 2 ^ 32"
    using unsigned_less [of dv, where ?'a = nat] by simp
  ultimately have "unat (ucast ((ucast dv :: u64) div 2) :: u32) = unat dv div 2"
    by (simp add: unat_ucast_u64_u32)
  then show ?thesis using e by simp
qed

lemma freq_range_facts:
  fixes freq :: u32
  assumes "IDT24x_MIN_FREQ \<le> freq" "freq \<le> IDT24x_MAX_FREQ"
  shows "freq \<noteq> 0" "freq * 2 \<noteq> 0" "unat freq < 2147483648"
proof -
  have lo: "1000000 \<le> unat freq" using assms(1) by (simp add: word_le_nat_alt IDT24x_MIN_FREQ_def)
  have hi: "unat freq \<le> 300000000" using assms(2) by (simp add: word_le_nat_alt IDT24x_MAX_FREQ_def)
  show "freq \<noteq> 0" using lo by auto
  show b: "unat freq < 2147483648" using hi by simp
  have "unat freq * unat (2 :: u32) < 2 ^ LENGTH(32)" using hi by simp
  then have "unat (freq * 2) = unat freq * unat (2 :: u32)" by (simp only: unat_mult_lem)
  then have "unat (freq * 2) \<noteq> 0" using lo by simp
  then show "freq * 2 \<noteq> 0" by auto
qed

text \<open>
  A configured reference below \<open>2^31\<close> Hz, whether the upstream clock or the crystal, gives
  a phase-detector frequency that is not zero.
\<close>

lemma pfd_of_configured:
  assumes "input_clk_freq data \<noteq> 0 \<or> xtal_freq data \<noteq> 0"
    and "unat (input_clk_freq data) < 2147483648" and "unat (xtal_freq data) < 2147483648"
  shows "pfd_of data \<noteq> 0"
proof -
  define ref where "ref = (if input_clk_freq data = 0 then xtal_freq data else input_clk_freq data)"
  have r0: "ref \<noteq> 0" using assms(1) by (auto simp: ref_def)
  have rb: "unat ref < 2147483648" using assms(2,3) by (simp add: ref_def)
  have "unat ref * unat (2 :: u32) < 2 ^ LENGTH(32)" using rb by simp
  then have "unat (ref * 2) = unat ref * unat (2 :: u32)" by (simp only: unat_mult_lem)
  moreover have "unat ref \<noteq> 0" using r0 by (simp add: unat_eq_0)
  ultimately have "unat (ref * 2) \<noteq> 0" by simp
  then have "ref * 2 \<noteq> 0" by auto
  then show ?thesis using r0 by (simp add: pfd_of_def ref_def [symmetric])
qed

text \<open>
  C1. For every target frequency between 1 MHz and 300 MHz on Q2 and a reference whose
  phase-detector frequency is not zero, \<open>idt24x_calc_divs\<close> returns, and it returns either
  \<open>-EINVAL\<close> or dividers whose selected divider \<open>d\<close> (twice the stored \<open>nint[1]\<close>) gives a
  VCO frequency \<open>f * d\<close>, as a product of natural numbers, between 2,999,997,000 and
  4,000,004,000 Hz.
\<close>

theorem calc_divs_vco_in_range:
  assumes lo: "IDT24x_MIN_FREQ \<le> frequencies data 2"
    and hi: "frequencies data 2 \<le> IDT24x_MAX_FREQ"
    and ref: "pfd_of data \<noteq> 0"
  shows "\<exists>r. idt24x_calc_divs data divs = Some r \<and>
           (case r of
              Inl e \<Rightarrow> e = EINVAL
            | Inr d \<Rightarrow>
                2999997000 \<le> unat (frequencies data 2) * (unat (nint d 1) * 2) \<and>
                unat (frequencies data 2) * (unat (nint d 1) * 2) \<le> 4000004000)"
proof -
  define freq where "freq = frequencies data 2"
  have f0: "freq \<noteq> 0" and f2: "freq * 2 \<noteq> 0" and fb: "unat freq < 2147483648"
    using freq_range_facts [of freq] lo hi by (simp_all add: freq_def)
  obtain dv low best where
    loop: "calc_divs_loop freq (max_div_of freq) IDT24x_MIN_INT_DIVIDER (0, False, 0)
             = Some (dv, low, best)"
    and inv: "sel_inv (candidate freq (max_div_of freq)) freq (dv, low, best)"
    using calc_divs_loop_result [OF f2] by (metis prod_cases3)
  note eq = calc_divs_eq [OF freq_def [symmetric] f2 loop, of divs]
  show ?thesis
  proof (cases "dv = 0")
    case True
    then show ?thesis using eq by simp
  next
    case False
    then have c: "candidate freq (max_div_of freq) dv" using inv by (simp add: sel_inv_def)
    then have ev: "even dv" and le: "dv \<le> max_div_of freq" and rng: "vco_in_range (freq * dv)"
      by (simp_all add: candidate_def)
    have prod: "unat (freq * dv) = unat freq * unat dv" by (rule unat_freq_mult [OF f0 fb le])
    have "2999997000 \<le> unat (freq * dv)" "unat (freq * dv) \<le> 4000004000"
      using rng by (simp_all add: vco_in_range_def word_le_nat_alt IDT24x_VCO_MIN_def IDT24x_VCO_MAX_def)
    then have "2999997000 \<le> unat freq * unat dv" "unat freq * unat dv \<le> 4000004000"
      by (simp_all add: prod)
    then show ?thesis
      using eq False ref by (simp add: unat_half_even [OF ev] freq_def)
  qed
qed

text \<open>
  C2. Whenever some even divider between 6 and the bound of the search gives a legal VCO
  frequency, \<open>idt24x_calc_divs\<close> succeeds (the phase-detector frequency being nonzero) and
  the divider it selects is a candidate; if some candidate has a VCO frequency of at most
  3.5 GHz, the selected one is below that threshold and has the highest VCO frequency of the
  candidates below it, and otherwise it has the highest VCO frequency of all candidates.
\<close>

theorem calc_divs_prefers_below_optimal:
  assumes f: "frequencies data 2 = freq" and ref: "pfd_of data \<noteq> 0"
    and ex: "candidate freq (max_div_of freq) c0"
  shows "\<exists>d dv. idt24x_calc_divs data divs = Some (Inr d) \<and>
           unat dv = unat (nint d 1) * 2 \<and>
           candidate freq (max_div_of freq) dv \<and>
           (if \<exists>c. candidate freq (max_div_of freq) c \<and> freq * c \<le> IDT24x_VCO_OPT
            then freq * dv \<le> IDT24x_VCO_OPT \<and>
                 (\<forall>c. candidate freq (max_div_of freq) c \<and> freq * c \<le> IDT24x_VCO_OPT
                        \<longrightarrow> freq * c \<le> freq * dv)
            else (\<forall>c. candidate freq (max_div_of freq) c \<longrightarrow> freq * c \<le> freq * dv))"
proof -
  have f2: "freq * 2 \<noteq> 0" by (rule candidate_freq2 [OF ex])
  obtain dv low best where
    loop: "calc_divs_loop freq (max_div_of freq) IDT24x_MIN_INT_DIVIDER (0, False, 0)
             = Some (dv, low, best)"
    and inv: "sel_inv (candidate freq (max_div_of freq)) freq (dv, low, best)"
    using calc_divs_loop_result [OF f2] by (metis prod_cases3)
  note eq = calc_divs_eq [OF f f2 loop, of divs]
  have i1: "dv = 0 \<Longrightarrow> \<forall>d. \<not> candidate freq (max_div_of freq) d"
    and i2: "dv \<noteq> 0 \<Longrightarrow> candidate freq (max_div_of freq) dv"
    and i3: "low \<Longrightarrow> freq * dv \<le> IDT24x_VCO_OPT \<and>
           (\<forall>d. candidate freq (max_div_of freq) d \<and> freq * d \<le> IDT24x_VCO_OPT
                \<longrightarrow> freq * d \<le> freq * dv)"
    and i4: "\<not> low \<Longrightarrow> (\<forall>d. candidate freq (max_div_of freq) d
                \<longrightarrow> IDT24x_VCO_OPT < freq * d \<and> freq * d \<le> freq * dv)"
    using inv by (simp_all add: sel_inv_def)
  have dv0: "dv \<noteq> 0" using i1 ex by blast
  have c: "candidate freq (max_div_of freq) dv" by (rule i2 [OF dv0])
  then have ev: "even dv" by (simp add: candidate_def)
  have sel: "if \<exists>c. candidate freq (max_div_of freq) c \<and> freq * c \<le> IDT24x_VCO_OPT
            then freq * dv \<le> IDT24x_VCO_OPT \<and>
                 (\<forall>c. candidate freq (max_div_of freq) c \<and> freq * c \<le> IDT24x_VCO_OPT
                        \<longrightarrow> freq * c \<le> freq * dv)
            else (\<forall>c. candidate freq (max_div_of freq) c \<longrightarrow> freq * c \<le> freq * dv)"
  proof (cases low)
    case True
    then show ?thesis using i3 c by auto
  next
    case False
    have n: "\<not> (\<exists>c. candidate freq (max_div_of freq) c \<and> freq * c \<le> IDT24x_VCO_OPT)"
      using i4 [OF False] by (auto simp: not_le)
    show ?thesis unfolding if_not_P [OF n] using i4 [OF False] by blast
  qed
  have "idt24x_calc_divs data divs = Some (Inr (divs\<lparr>dsmint := ucast ((ucast (dv * freq) :: u64) div ucast (pfd_of data)),
                         dsmfrac := ucast (push_bit 21 ((ucast (dv * freq) :: u64) mod
                                      ucast (pfd_of data)) div ucast (pfd_of data)),
                         ns1_q0 := 0, ns2_q0 := 0,
                         nint := (nint divs)(1 := ucast ((ucast dv :: u64) div 2)),
                         nfrac := (nfrac divs)(1 := 0)\<rparr>))"
    using eq dv0 ref by simp
  moreover have "unat dv = unat (ucast ((ucast dv :: u64) div 2) :: u32) * 2"
    using unat_half_even [OF ev] by simp
  ultimately show ?thesis using c sel
    by (intro exI [of _ "divs\<lparr>dsmint := ucast ((ucast (dv * freq) :: u64) div ucast (pfd_of data)),
                         dsmfrac := ucast (push_bit 21 ((ucast (dv * freq) :: u64) mod
                                      ucast (pfd_of data)) div ucast (pfd_of data)),
                         ns1_q0 := 0, ns2_q0 := 0,
                         nint := (nint divs)(1 := ucast ((ucast dv :: u64) div 2)),
                         nfrac := (nfrac divs)(1 := 0)\<rparr>"] exI [of _ dv]) simp
qed

lemma max_div_of_125MHz: "max_div_of 125000000 = 32"
  by (simp add: max_div_of_def IDT24x_VCO_MAX_def)

lemma loop_125MHz:
  "calc_divs_loop 125000000 32 6 (0, False, 0) = Some (28, True, 3500000000)"
  by code_simp

lemma freq_q2_125MHz: "frequencies q2_125MHz 2 = 125000000"
  by (simp add: q2_125MHz_def probed_def)

lemma pfd_q2_125MHz: "pfd_of q2_125MHz = 50000000"
  by (simp add: pfd_of_def q2_125MHz_def probed_def)

lemma calc_divs_q2_125MHz:
  "idt24x_calc_divs q2_125MHz divs =
     Some (Inr (divs\<lparr>dsmint := 70, dsmfrac := 0, ns1_q0 := 0, ns2_q0 := 0,
                     nint := (nint divs)(1 := 14), nfrac := (nfrac divs)(1 := 0)\<rparr>))"
proof -
  have l: "calc_divs_loop 125000000 (max_div_of 125000000) IDT24x_MIN_INT_DIVIDER (0, False, 0)
      = Some (28, True, 3500000000)"
    by (simp add: max_div_of_125MHz IDT24x_MIN_INT_DIVIDER_def loop_125MHz)
  show ?thesis
    using calc_divs_eq [OF freq_q2_125MHz _ l, of divs]
    by (simp add: pfd_q2_125MHz)
qed

text \<open>
  C3. With 125 MHz requested on Q2 and a 25 MHz crystal with the doubler enabled, the
  phase-detector frequency is 50 MHz, the search selects the divider 28 with the VCO at
  3,500,000,000 Hz, and the result has \<open>dsmint = 70\<close> and \<open>dsmfrac = 0\<close>, whatever the
  structure held before.
\<close>

theorem calc_divs_125MHz:
  "frequencies q2_125MHz 2 = 125000000 \<and> pfd_of q2_125MHz = 50000000 \<and>
   calc_divs_loop 125000000 (max_div_of 125000000) IDT24x_MIN_INT_DIVIDER (0, False, 0)
     = Some (28, True, 3500000000) \<and>
   (28 :: u32) * 125000000 = 3500000000 \<and>
   stored_dsm (idt24x_calc_divs q2_125MHz divs) = Some (70, 0) \<and>
   idt24x_calc_divs q2_125MHz stack_divs = Some (Inr divs_125MHz)"
  by (simp add: freq_q2_125MHz pfd_q2_125MHz max_div_of_125MHz IDT24x_MIN_INT_DIVIDER_def
      loop_125MHz calc_divs_q2_125MHz stored_dsm_def stack_divs_def divs_125MHz_def)

theorem calc_divs_vco_in_range_witness:
  "IDT24x_MIN_FREQ \<le> frequencies q2_125MHz 2 \<and> frequencies q2_125MHz 2 \<le> IDT24x_MAX_FREQ \<and>
   pfd_of q2_125MHz \<noteq> 0 \<and>
   (\<exists>r. idt24x_calc_divs q2_125MHz stack_divs = Some r \<and>
      (case r of
         Inl e \<Rightarrow> e = EINVAL
       | Inr d \<Rightarrow>
           2999997000 \<le> unat (frequencies q2_125MHz 2) * (unat (nint d 1) * 2) \<and>
           unat (frequencies q2_125MHz 2) * (unat (nint d 1) * 2) \<le> 4000004000))"
proof -
  have h1: "IDT24x_MIN_FREQ \<le> frequencies q2_125MHz 2"
    by (simp add: freq_q2_125MHz IDT24x_MIN_FREQ_def)
  have h2: "frequencies q2_125MHz 2 \<le> IDT24x_MAX_FREQ"
    by (simp add: freq_q2_125MHz IDT24x_MAX_FREQ_def)
  have h3: "pfd_of q2_125MHz \<noteq> 0" by (simp add: pfd_q2_125MHz)
  show ?thesis
    using h1 h2 h3 calc_divs_vco_in_range [OF h1 h2 h3, of stack_divs] by blast
qed

lemma candidate_28: "candidate 125000000 (max_div_of 125000000) 28"
  by (simp add: candidate_def max_div_of_125MHz vco_in_range_def IDT24x_MIN_INT_DIVIDER_def
      IDT24x_VCO_MIN_def IDT24x_VCO_MAX_def)

theorem calc_divs_prefers_below_optimal_witness:
  "frequencies q2_125MHz 2 = 125000000 \<and> pfd_of q2_125MHz \<noteq> 0 \<and>
   candidate 125000000 (max_div_of 125000000) 28 \<and>
   (\<exists>d dv. idt24x_calc_divs q2_125MHz stack_divs = Some (Inr d) \<and>
      unat dv = unat (nint d 1) * 2 \<and>
      candidate 125000000 (max_div_of 125000000) dv \<and>
      (if \<exists>c. candidate 125000000 (max_div_of 125000000) c \<and> 125000000 * c \<le> IDT24x_VCO_OPT
       then 125000000 * dv \<le> IDT24x_VCO_OPT \<and>
            (\<forall>c. candidate 125000000 (max_div_of 125000000) c \<and>
                  125000000 * c \<le> IDT24x_VCO_OPT \<longrightarrow> 125000000 * c \<le> 125000000 * dv)
       else (\<forall>c. candidate 125000000 (max_div_of 125000000) c
                  \<longrightarrow> 125000000 * c \<le> 125000000 * dv)))"
proof -
  have h2: "pfd_of q2_125MHz \<noteq> 0" by (simp add: pfd_q2_125MHz)
  show ?thesis
    using freq_q2_125MHz h2 candidate_28
      calc_divs_prefers_below_optimal [OF freq_q2_125MHz h2 candidate_28, of stack_divs]
    by blast
qed

lemma unat_dsmint:
  fixes vco pfd :: u32
  shows "unat (ucast ((ucast vco :: u64) div ucast pfd) :: u16)
           = (unat vco div unat pfd) mod 65536"
  by (simp add: unat_ucast_u64_u16 unat_div unat_ucast_u32_u64)

lemma unat_dsmfrac:
  fixes vco pfd :: u32
  assumes p: "pfd \<noteq> 0"
  shows "unat (ucast (push_bit 21 ((ucast vco :: u64) mod ucast pfd) div ucast pfd) :: u32)
           = (unat vco mod unat pfd) * 2 ^ 21 div unat pfd"
proof -
  define r where "r = unat vco mod unat pfd"
  have ppos: "0 < unat pfd" using p by (simp add: unat_gt_0)
  have rp: "r < unat pfd" using ppos by (simp add: r_def)
  have pb: "unat pfd < 2 ^ 32" using unsigned_less [of pfd, where ?'a = nat] by simp
  have rem: "unat ((ucast vco :: u64) mod ucast pfd) = r"
    by (simp add: unat_mod unat_ucast_u32_u64 r_def)
  define x where "x = (ucast vco :: u64) mod ucast pfd"
  have "unat x * unat (2097152 :: u64) < 2 ^ LENGTH(64)"
    using rp pb by (simp add: x_def rem)
  then have "unat (x * 2097152) = unat x * unat (2097152 :: u64)"
    by (simp only: unat_mult_lem)
  then have sh: "unat (push_bit 21 ((ucast vco :: u64) mod ucast pfd)) = r * 2 ^ 21"
    by (simp add: push_bit_eq_mult x_def rem)
  have q: "unat (push_bit 21 ((ucast vco :: u64) mod ucast pfd) div ucast pfd)
      = r * 2 ^ 21 div unat pfd"
    by (simp only: unat_div sh unat_ucast_u32_u64)
  have "r * 2 ^ 21 < 2 ^ 21 * unat pfd" using rp by simp
  then have "r * 2 ^ 21 div unat pfd < 2 ^ 21" by (rule less_mult_imp_div_less)
  then have "r * 2 ^ 21 div unat pfd < 2 ^ 32" by simp
  then show ?thesis by (simp add: unat_ucast_u64_u32 q r_def)
qed

text \<open>
  C4, amended. After a successful calculation, with \<open>vco\<close> the \<open>u32\<close> product of the
  selected divider and the frequency and \<open>pfd\<close> the phase-detector frequency (which is then
  not zero), \<open>dsmint\<close> is the floor of \<open>vco / pfd\<close> reduced modulo \<open>2^16\<close>, and \<open>dsmfrac\<close>
  is the floor of \<open>(vco mod pfd) * 2^21 / pfd\<close>: the remainder is multiplied before it is
  divided, and the quotient is truncated, not rounded.
\<close>

theorem calc_divs_dsm_fields:
  assumes ok: "idt24x_calc_divs data divs = Some (Inr d)"
  shows "\<exists>dv low best.
           calc_divs_loop (frequencies data 2) (max_div_of (frequencies data 2))
             IDT24x_MIN_INT_DIVIDER (0, False, 0) = Some (dv, low, best) \<and>
           pfd_of data \<noteq> 0 \<and>
           unat (dsmint d)
             = (unat (dv * frequencies data 2) div unat (pfd_of data)) mod 65536 \<and>
           unat (dsmfrac d)
             = (unat (dv * frequencies data 2) mod unat (pfd_of data)) * 2 ^ 21
                 div unat (pfd_of data)"
proof -
  define freq where "freq = frequencies data 2"
  have f2: "freq * 2 \<noteq> 0"
  proof
    assume "freq * 2 = 0"
    then have "idt24x_calc_divs data divs = Some (Inl EINVAL)
        \<or> idt24x_calc_divs data divs = Some (Inl DIVIDE_ERROR)"
      by (simp add: idt24x_calc_divs_def Let_def div64_u64_def freq_def ucast_u32_u64_eq_0)
    then show False using ok by auto
  qed
  obtain dv low best where
    loop: "calc_divs_loop freq (max_div_of freq) IDT24x_MIN_INT_DIVIDER (0, False, 0)
             = Some (dv, low, best)"
    using calc_divs_loop_result [OF f2] by (metis prod_cases3)
  note eq = calc_divs_eq [OF freq_def [symmetric] f2 loop, of divs]
  have dv0: "dv \<noteq> 0" using eq ok by auto
  have p0: "pfd_of data \<noteq> 0" using eq ok dv0 by auto
  have d: "d = divs\<lparr>dsmint := ucast ((ucast (dv * freq) :: u64) div ucast (pfd_of data)),
                         dsmfrac := ucast (push_bit 21 ((ucast (dv * freq) :: u64) mod
                                      ucast (pfd_of data)) div ucast (pfd_of data)),
                         ns1_q0 := 0, ns2_q0 := 0,
                         nint := (nint divs)(1 := ucast ((ucast dv :: u64) div 2)),
                         nfrac := (nfrac divs)(1 := 0)\<rparr>"
    using eq ok dv0 p0 by simp
  have "unat (dsmint d) = (unat (dv * freq) div unat (pfd_of data)) mod 65536"
    by (simp add: d unat_dsmint)
  moreover have "unat (dsmfrac d)
      = (unat (dv * freq) mod unat (pfd_of data)) * 2 ^ 21 div unat (pfd_of data)"
    by (simp add: d unat_dsmfrac [OF p0])
  ultimately show ?thesis using loop p0 unfolding freq_def by blast
qed

lemma freq_slow_ref: "frequencies q2_125MHz_slow_ref 2 = 125000000"
  by (simp add: q2_125MHz_slow_ref_def freq_q2_125MHz)

lemma pfd_slow_ref: "pfd_of q2_125MHz_slow_ref = 44100"
  by (simp add: pfd_of_def q2_125MHz_slow_ref_def q2_125MHz_def probed_def)

lemma loop_125MHz_full:
  "calc_divs_loop 125000000 (max_div_of 125000000) IDT24x_MIN_INT_DIVIDER (0, False, 0)
      = Some (28, True, 3500000000)"
  by (simp add: max_div_of_125MHz IDT24x_MIN_INT_DIVIDER_def loop_125MHz)

lemma calc_divs_slow_ref:
  "idt24x_calc_divs q2_125MHz_slow_ref divs =
     Some (Inr (divs\<lparr>dsmint := 13829, dsmfrac := 166440, ns1_q0 := 0, ns2_q0 := 0,
                     nint := (nint divs)(1 := 14), nfrac := (nfrac divs)(1 := 0)\<rparr>))"
  using calc_divs_eq [OF freq_slow_ref _ loop_125MHz_full, of divs]
  by (simp add: pfd_slow_ref)

text \<open>
  C4, as stated, fails: with 125 MHz requested and a 44.1 kHz crystal (doubler disabled)
  the VCO is 3,500,000,000 Hz, the quotient 79365 does not fit the 16-bit \<open>dsmint\<close>, which
  holds 13829, and \<open>dsmfrac\<close> is 166440, the truncated value, where rounding to the nearest
  gives 166441.
\<close>

theorem calc_divs_dsm_not_rounded:
  "frequencies q2_125MHz_slow_ref 2 = 125000000 \<and> pfd_of q2_125MHz_slow_ref = 44100 \<and>
   calc_divs_loop 125000000 (max_div_of 125000000) IDT24x_MIN_INT_DIVIDER (0, False, 0)
     = Some (28, True, 3500000000) \<and>
   stored_dsm (idt24x_calc_divs q2_125MHz_slow_ref stack_divs) = Some (13829, 166440) \<and>
   spec_dsmint 3500000000 44100 = 79365 \<and>
   spec_dsmfrac 3500000000 44100 = 166441 \<and>
   stored_dsm (idt24x_calc_divs q2_125MHz_slow_ref stack_divs)
     \<noteq> Some (spec_dsmint 3500000000 44100, spec_dsmfrac 3500000000 44100)"
  by (simp add: freq_slow_ref pfd_slow_ref loop_125MHz_full calc_divs_slow_ref stored_dsm_def
      spec_dsmint_def spec_dsmfrac_def round_div_def)

theorem calc_divs_dsm_fields_witness:
  "idt24x_calc_divs q2_125MHz_slow_ref stack_divs =
     Some (Inr (stack_divs\<lparr>dsmint := 13829, dsmfrac := 166440, ns1_q0 := 0, ns2_q0 := 0,
                     nint := (nint stack_divs)(1 := 14), nfrac := (nfrac stack_divs)(1 := 0)\<rparr>)) \<and>
   pfd_of q2_125MHz_slow_ref \<noteq> 0 \<and>
   (13829 :: nat) = (unat ((28 :: u32) * 125000000) div unat (pfd_of q2_125MHz_slow_ref)) mod 65536 \<and>
   (166440 :: nat) = (unat ((28 :: u32) * 125000000) mod unat (pfd_of q2_125MHz_slow_ref)) * 2 ^ 21
         div unat (pfd_of q2_125MHz_slow_ref)"
  using calc_divs_dsm_fields [OF calc_divs_slow_ref [of stack_divs]]
  by (simp add: freq_slow_ref loop_125MHz_full calc_divs_slow_ref)

text \<open>
  At a usual reference the quotient fits and only the rounding differs: with a 27 MHz crystal
  and the doubler enabled, \<open>dsmfrac\<close> is 1708790 where rounding gives 1708791.
\<close>

lemma calc_divs_27MHz:
  "stored_dsm (idt24x_calc_divs (q2_125MHz\<lparr>xtal_freq := 27000000\<rparr>) divs) = Some (64, 1708790) \<and>
   spec_dsmint 3500000000 54000000 = 64 \<and> spec_dsmfrac 3500000000 54000000 = 1708791"
proof -
  have f: "frequencies (q2_125MHz\<lparr>xtal_freq := 27000000\<rparr>) 2 = 125000000"
    by (simp add: freq_q2_125MHz)
  have p: "pfd_of (q2_125MHz\<lparr>xtal_freq := 27000000\<rparr>) = 54000000"
    by (simp add: pfd_of_def q2_125MHz_def probed_def)
  show ?thesis
    using calc_divs_eq [OF f _ loop_125MHz_full, of divs]
    by (simp add: p stored_dsm_def spec_dsmint_def spec_dsmfrac_def round_div_def)
qed

lemma freq_q1_and_q2: "frequencies q1_and_q2 2 = 125000000" "frequencies q1_and_q2 1 = 100000000"
  by (simp_all add: q1_and_q2_def freq_q2_125MHz)

lemma freq_q1_and_q2_Suc: "frequencies q1_and_q2 (Suc 0) = 100000000"
  using freq_q1_and_q2(2) by simp

lemma pfd_q1_and_q2: "pfd_of q1_and_q2 = 50000000"
  by (simp add: pfd_of_def q1_and_q2_def q2_125MHz_def probed_def)

text \<open>
  C8, as stated, fails: with 100 MHz requested on Q1 beside 125 MHz on Q2 the calculation
  does not return an error; it returns the dividers of Q2.
\<close>

theorem calc_divs_other_channel_no_error:
  "frequencies q1_and_q2 1 = 100000000 \<and>
   idt24x_calc_divs q1_and_q2 stack_divs = Some (Inr divs_125MHz)"
  using calc_divs_eq [OF freq_q1_and_q2(1) _ loop_125MHz_full, of stack_divs]
  by (simp add: freq_q1_and_q2_Suc pfd_q1_and_q2 stack_divs_def divs_125MHz_def)

lemma pfd_of_frequencies: "pfd_of (data\<lparr>frequencies := f\<rparr>) = pfd_of data"
  by (simp add: pfd_of_def)

text \<open>
  C8, amended. A request on channel 0, 1 or 3 is only logged: whatever frequencies these
  channels hold, \<open>idt24x_calc_divs\<close> returns what it returns without them, an error or the
  dividers of Q2.
\<close>

theorem calc_divs_ignores_other_channels:
  "idt24x_calc_divs (data\<lparr>frequencies := (frequencies data)(0 := a, 1 := b, 3 := c)\<rparr>) divs
     = idt24x_calc_divs data divs"
  unfolding idt24x_calc_divs_def pfd_of_frequencies by simp

lemma calc_divs_q0_fields:
  assumes "idt24x_calc_divs data divs = Some (Inr d)"
  shows "ns1_q0 d = 0 \<and> ns2_q0 d = 0"
  using assms
  by (auto simp: idt24x_calc_divs_def Let_def div64_u64_def div64_u64_rem_def
      split: if_splits sum.splits option.splits prod.splits)

section \<open>Bus traffic of the output programmer\<close>

lemma wrote_refl: "wrote d d []"
  by (simp add: wrote_def)

lemma wrote_trans: "wrote d d1 n1 \<Longrightarrow> wrote d1 d2 n2 \<Longrightarrow> wrote d d2 (n1 @ n2)"
  by (simp add: wrote_def)

lemma regmap_write_trace:
  "regmap_write m reg val = (err, m') \<Longrightarrow> trace m' = trace m @ [(reg, val, err)]"
  by (auto simp: regmap_write_def split: list.splits)

lemma retry_loop_trace:
  "regmapWriteWithRetry_loop m reg val mx c = (err, m') \<Longrightarrow>
     \<exists>es. trace m' = trace m @ map (\<lambda>e. (reg, val, e)) (es @ [err]) \<and> (\<forall>e \<in> set es. e \<noteq> 0)"
proof (induction m reg val mx c rule: regmapWriteWithRetry_loop.induct)
  case (1 m offset val maxAttempts count)
  obtain e1 m1 where w: "regmap_write m offset val = (e1, m1)" by (cases "regmap_write m offset val")
  have t1: "trace m1 = trace m @ [(offset, val, e1)]" by (rule regmap_write_trace [OF w])
  show ?case
  proof (cases "e1 = 0")
    case True
    then have "err = 0" "m' = m1"
      using "1.prems" w by (simp_all add: regmapWriteWithRetry_loop.simps [of m])
    then show ?thesis using t1 True by (intro exI [of _ "[]"]) simp
  next
    case False
    show ?thesis
    proof (cases "count \<le> maxAttempts")
      case True
      have rec: "regmapWriteWithRetry_loop m1 offset val maxAttempts (count + 1) = (err, m')"
        using "1.prems" w False True by (simp add: regmapWriteWithRetry_loop.simps [of m])
      obtain es where es: "trace m' = trace m1 @ map (\<lambda>e. (offset, val, e)) (es @ [err])"
        "\<forall>e \<in> set es. e \<noteq> 0"
        using "1.IH" [OF w [symmetric] False True rec] by blast
      show ?thesis using es t1 False by (intro exI [of _ "e1 # es"]) simp
    next
      case nle: False
      have "err = e1" "m' = m1"
        using "1.prems" w False nle by (simp_all add: regmapWriteWithRetry_loop.simps [of m])
      then show ?thesis using t1 by (intro exI [of _ "[]"]) simp
    qed
  qed
qed

lemma i2cwrite_trace:
  assumes "i2cwrite m reg val = (err, m')"
  shows "\<exists>new. trace m' = trace m @ new \<and> new \<noteq> [] \<and>
           (\<forall>x \<in> set new. fst x = reg \<and> fst (snd x) = val) \<and>
           hd new = (reg, val, snd (snd (hd new))) \<and>
           (err = 0 \<longrightarrow> (reg, val, 0) \<in> set new)"
proof -
  obtain es where es: "trace m' = trace m @ map (\<lambda>e. (reg, val, e)) (es @ [err])"
    using retry_loop_trace [of m reg val 5 1 err m'] assms
    by (auto simp: i2cwrite_def regmapWriteWithRetry_def)
  show ?thesis
    using es by (intro exI [of _ "map (\<lambda>e. (reg, val, e)) (es @ [err])"]) (cases es; auto)
qed

lemma write_reg_wrote:
  assumes "write_reg reg val d = (r, d')"
  shows "\<exists>new m. wrote d d' new \<and> d' = d\<lparr>regmap := m\<rparr> \<and> new \<noteq> [] \<and>
           (\<forall>x \<in> set new. fst x = reg \<and> fst (snd x) = val d) \<and>
           hd new = (reg, val d, snd (snd (hd new))) \<and>
           (r = Inr () \<longrightarrow> (reg, val d, 0) \<in> set new)"
proof -
  obtain err m where w: "i2cwrite (regmap d) reg (val d) = (err, m)"
    by (cases "i2cwrite (regmap d) reg (val d)")
  have r: "r = (if err = 0 then Inr () else Inl (EBUS err))" and d': "d' = d\<lparr>regmap := m\<rparr>"
    using assms w by (simp_all add: write_reg_def)
  obtain new where new: "trace m = trace (regmap d) @ new" "new \<noteq> []"
    "\<forall>x \<in> set new. fst x = reg \<and> fst (snd x) = val d"
    "hd new = (reg, val d, snd (snd (hd new)))"
    "err = 0 \<longrightarrow> (reg, val d, 0) \<in> set new"
    using i2cwrite_trace [OF w] by blast
  have "r = Inr () \<longrightarrow> err = 0" using r by (simp split: if_splits)
  then show ?thesis using new d' by (intro exI [of _ new] exI [of _ m]) (simp add: wrote_def)
qed

lemma write_reg_masked_eq:
  "write_reg_masked reg val original msk =
     write_reg reg (\<lambda>d. i2cwritewithmask_val (val d) (original d) msk)"
  by (rule ext) (simp add: write_reg_masked_def write_reg_def i2cwritewithmask_def)

lemma run_steps_Cons_ok:
  assumes "run_steps (f # fs) d = (Inr (), d')"
  shows "\<exists>d1. f d = (Inr (), d1) \<and> run_steps fs d1 = (Inr (), d')"
  using assms by (auto split: prod.splits sum.splits)

lemma extends_write_reg: "extends (write_reg reg val)"
  unfolding extends_def using write_reg_wrote by blast

lemma extends_write_reg_masked: "extends (write_reg_masked reg val original msk)"
  by (simp add: write_reg_masked_eq extends_write_reg)

lemma extends_run_steps:
  assumes "\<forall>f \<in> set fs. extends f"
  shows "extends (run_steps fs)"
  using assms
proof (induction fs)
  case Nil
  then show ?case using wrote_refl by (auto simp: extends_def)
next
  case (Cons f fs)
  have ef: "extends f" and efs: "extends (run_steps fs)" using Cons by simp_all
  show ?case
    unfolding extends_def
  proof (intro allI impI)
    fix d r d' assume run: "run_steps (f # fs) d = (r, d')"
    obtain r1 d1 where f1: "f d = (r1, d1)" by (cases "f d")
    obtain n1 where n1: "wrote d d1 n1" using ef f1 unfolding extends_def by blast
    show "\<exists>new. wrote d d' new"
    proof (cases r1)
      case (Inl e)
      then have "d' = d1" using run f1 by simp
      then show ?thesis using n1 by blast
    next
      case (Inr u)
      then have "run_steps fs d1 = (r, d')" using run f1 by simp
      then obtain n2 where "wrote d1 d' n2" using efs unfolding extends_def by blast
      then show ?thesis using wrote_trans [OF n1] by blast
    qed
  qed
qed

lemma extends_ignore_result: "extends f \<Longrightarrow> extends (ignore_result f)"
  by (auto simp: extends_def ignore_result_def) (metis prod.collapse)

lemma output_cases:
  fixes out :: u8
  assumes "out < 4"
  shows "out = 0 \<or> out = 1 \<or> out = 2 \<or> out = 3"
proof -
  have "unat out < 4" using assms by (simp add: word_less_nat_alt)
  then have "unat out = 0 \<or> unat out = 1 \<or> unat out = 2 \<or> unat out = 3" by arith
  then have "unat out = unat (0 :: u8) \<or> unat out = unat (1 :: u8) \<or>
      unat out = unat (2 :: u8) \<or> unat out = unat (3 :: u8)" by simp
  then show ?thesis by (simp only: word_unat_eq_iff)
qed

lemma bits_to_shift_pow2:
  "bits_to_shift 1 = 0" "bits_to_shift 2 = 1" "bits_to_shift 4 = 2" "bits_to_shift 8 = 3"
  by (simp_all add: bits_to_shift_def)

lemma enable_output_eq:
  assumes "out < 4"
  shows "idt24x_enable_output out enable d =
     run_steps [write_reg IDT24x_REG_OUTEN (\<lambda>d. ucast (regOUTENx d)),
                write_reg IDT24x_REG_Q_DIS (\<lambda>d. ucast (regQxDIS d))]
       (d\<lparr>regOUTENx := outen_after out enable (regOUTENx d),
          regQxDIS := qdis_after out enable (regQxDIS d)\<rparr>)"
  using output_cases [OF assms]
  by (elim disjE)
     (simp_all add: idt24x_enable_output_def idt24x_get_offsets_def Let_def outen_after_def
        qdis_after_def bits_to_shift_pow2 IDT24x_REG_OUTEN0_MASK_def IDT24x_REG_OUTEN1_MASK_def
        IDT24x_REG_OUTEN2_MASK_def IDT24x_REG_OUTEN3_MASK_def IDT24x_REG_Q0_DIS_MASK_def
        IDT24x_REG_Q1_DIS_MASK_def IDT24x_REG_Q2_DIS_MASK_def IDT24x_REG_Q3_DIS_MASK_def)

lemma enable_output_invalid:
  assumes "\<not> out < 4"
  shows "idt24x_enable_output out enable d = (Inl EINVAL, d)"
proof -
  have "out \<noteq> 0" "out \<noteq> 1" "out \<noteq> 2" "out \<noteq> 3" using assms by auto
  then show ?thesis by (simp add: idt24x_enable_output_def idt24x_get_offsets_def)
qed

lemma enable_output_effect:
  assumes lt: "out < 4" and run: "idt24x_enable_output out enable d = (r, d')"
  shows "\<exists>new m. wrote d d' new \<and>
           d' = d\<lparr>regOUTENx := outen_after out enable (regOUTENx d),
                  regQxDIS := qdis_after out enable (regQxDIS d), regmap := m\<rparr> \<and>
           new \<noteq> [] \<and>
           hd new = (IDT24x_REG_OUTEN, ucast (outen_after out enable (regOUTENx d)),
                     snd (snd (hd new))) \<and>
           (\<forall>x \<in> set new.
              (fst x = IDT24x_REG_OUTEN \<and>
                 fst (snd x) = ucast (outen_after out enable (regOUTENx d))) \<or>
              (fst x = IDT24x_REG_Q_DIS \<and>
                 fst (snd x) = ucast (qdis_after out enable (regQxDIS d))))"
proof -
  define d4 where "d4 = d\<lparr>regOUTENx := outen_after out enable (regOUTENx d),
          regQxDIS := qdis_after out enable (regQxDIS d)\<rparr>"
  have run': "run_steps [write_reg IDT24x_REG_OUTEN (\<lambda>d. ucast (regOUTENx d)),
                write_reg IDT24x_REG_Q_DIS (\<lambda>d. ucast (regQxDIS d))] d4 = (r, d')"
    using run by (simp only: enable_output_eq [OF lt] d4_def)
  obtain r1 d5 where w1: "write_reg IDT24x_REG_OUTEN (\<lambda>d. ucast (regOUTENx d)) d4 = (r1, d5)"
    by (cases "write_reg IDT24x_REG_OUTEN (\<lambda>d. ucast (regOUTENx d)) d4")
  obtain n1 m1 where n1: "wrote d4 d5 n1" "d5 = d4\<lparr>regmap := m1\<rparr>" "n1 \<noteq> []"
    "\<forall>x \<in> set n1. fst x = IDT24x_REG_OUTEN \<and> fst (snd x) = ucast (regOUTENx d4)"
    "hd n1 = (IDT24x_REG_OUTEN, ucast (regOUTENx d4), snd (snd (hd n1)))"
    using write_reg_wrote [OF w1] by blast
  have t4: "trace (regmap d4) = trace (regmap d)" by (simp add: d4_def)
  show ?thesis
  proof (cases r1)
    case (Inl e)
    then have "d' = d5" using run' w1 by simp
    then show ?thesis
      using n1 t4 by (intro exI [of _ n1] exI [of _ m1]) (simp add: wrote_def d4_def)
  next
    case (Inr u)
    then have w2: "write_reg IDT24x_REG_Q_DIS (\<lambda>d. ucast (regQxDIS d)) d5 = (r, d')"
      using run' w1 by (simp split: prod.splits sum.splits)
    obtain n2 m2 where n2: "wrote d5 d' n2" "d' = d5\<lparr>regmap := m2\<rparr>"
      "\<forall>x \<in> set n2. fst x = IDT24x_REG_Q_DIS \<and> fst (snd x) = ucast (regQxDIS d5)"
      using write_reg_wrote [OF w2] by blast
    have "wrote d d' (n1 @ n2)" using n1(1) n2(1) t4 by (simp add: wrote_def)
    then show ?thesis
      using n1 n2 by (intro exI [of _ "n1 @ n2"] exI [of _ m2]) (auto simp: d4_def)
  qed
qed

lemma extends_enable_output: "extends (\<lambda>d. idt24x_enable_output out (en d) d)"
  unfolding extends_def
proof (intro allI impI)
  fix d r d' assume run: "idt24x_enable_output out (en d) d = (r, d')"
  show "\<exists>new. wrote d d' new"
  proof (cases "out < 4")
    case True
    then show ?thesis using enable_output_effect [OF True run] by blast
  next
    case False
    then have "d' = d" using run by (simp add: enable_output_invalid)
    then show ?thesis using wrote_refl by blast
  qed
qed

lemma bit_outen_after:
  "bit (outen_after out en x) n \<longleftrightarrow> (if n = unat out then en \<and> n < 8 else bit x n)"
  by (auto simp: outen_after_def bit_simps dest: bit_imp_le_length)

lemma bit_qdis_after:
  "bit (qdis_after out en x) n \<longleftrightarrow> (if n = unat out then \<not> en \<and> n < 8 else bit x n)"
  by (auto simp: qdis_after_def bit_simps dest: bit_imp_le_length)

lemma unat_output_lt:
  fixes out :: u8
  shows "out < 4 \<Longrightarrow> unat out < 8"
  by (simp add: word_less_nat_alt)

lemma enable_output_frame:
  assumes run: "idt24x_enable_output out en d = (r, d')" and n: "n \<noteq> unat out"
  shows "bit (regOUTENx d') n = bit (regOUTENx d) n \<and> bit (regQxDIS d') n = bit (regQxDIS d) n"
proof (cases "out < 4")
  case True
  obtain new m where "d' = d\<lparr>regOUTENx := outen_after out en (regOUTENx d),
                  regQxDIS := qdis_after out en (regQxDIS d), regmap := m\<rparr>"
    using enable_output_effect [OF True run] by blast
  then show ?thesis using n by (simp add: bit_outen_after bit_qdis_after)
next
  case False
  then have "d' = d" using run by (simp add: enable_output_invalid)
  then show ?thesis by simp
qed

lemma i2cwrite_outcomes:
  assumes "i2cwrite m reg val = (err, m')"
  shows "\<exists>new. trace m' = trace m @ new \<and> new \<noteq> [] \<and>
           (\<forall>x \<in> set new. fst x = reg \<and> fst (snd x) = val) \<and>
           snd (snd (last new)) = err \<and>
           (\<forall>x \<in> set (butlast new). snd (snd x) \<noteq> 0)"
proof -
  obtain es where es: "trace m' = trace m @ map (\<lambda>e. (reg, val, e)) (es @ [err])"
    "\<forall>e \<in> set es. e \<noteq> 0"
    using retry_loop_trace [of m reg val 5 1 err m'] assms
    by (auto simp: i2cwrite_def regmapWriteWithRetry_def)
  have bl: "butlast (map (\<lambda>e. (reg, val, e)) (es @ [err])) = map (\<lambda>e. (reg, val, e)) es"
    by (simp add: map_butlast [symmetric])
  show ?thesis
    using es by (intro exI [of _ "map (\<lambda>e. (reg, val, e)) (es @ [err])"]) (auto simp: bl)
qed

lemma write_reg_outcomes:
  assumes "write_reg reg val d = (r, d')"
  shows "\<exists>new m. wrote d d' new \<and> d' = d\<lparr>regmap := m\<rparr> \<and> new \<noteq> [] \<and>
           (\<forall>x \<in> set new. fst x = reg \<and> fst (snd x) = val d) \<and>
           (\<forall>x \<in> set (butlast new). snd (snd x) \<noteq> 0) \<and>
           r = (if snd (snd (last new)) = 0 then Inr ()
                else Inl (EBUS (snd (snd (last new)))))"
proof -
  obtain err m where w: "i2cwrite (regmap d) reg (val d) = (err, m)"
    by (cases "i2cwrite (regmap d) reg (val d)")
  have r: "r = (if err = 0 then Inr () else Inl (EBUS err))" and d': "d' = d\<lparr>regmap := m\<rparr>"
    using assms w by (simp_all add: write_reg_def)
  obtain new where new: "trace m = trace (regmap d) @ new" "new \<noteq> []"
    "\<forall>x \<in> set new. fst x = reg \<and> fst (snd x) = val d"
    "snd (snd (last new)) = err"
    "\<forall>x \<in> set (butlast new). snd (snd x) \<noteq> 0"
    using i2cwrite_outcomes [OF w] by blast
  show ?thesis
    using new d' r by (intro exI [of _ new] exI [of _ m]) (simp add: wrote_def)
qed

lemma i2cwrite_no_fail:
  assumes "replies m = []"
  shows "i2cwrite m reg val = (0, m\<lparr>trace := trace m @ [(reg, val, 0)]\<rparr>)"
  using assms
  by (simp add: i2cwrite_def regmapWriteWithRetry_def regmapWriteWithRetry_loop.simps [of m]
      regmap_write_def)

lemma write_reg_no_fail:
  assumes "replies (regmap d) = []"
  shows "write_reg reg val d =
     (Inr (), d\<lparr>regmap := (regmap d)\<lparr>trace := trace (regmap d) @ [(reg, val d, 0)]\<rparr>\<rparr>)"
  by (simp add: write_reg_def i2cwrite_no_fail [OF assms])

text \<open>
  The traffic of one call, in full. For an output among 0 to 3 the call sends the new
  enable shadow to the enable register until a write succeeds or the retries are used up
  (\<open>n1\<close>) and, only when that write succeeded, the new disable shadow to the disable
  register in the same way (\<open>n2\<close>); it returns 0 exactly when the last write of the
  disable register succeeded. When the bus accepts every write the traffic is the two writes.
\<close>

lemma enable_output_traffic:
  assumes lt: "out < 4" and run: "idt24x_enable_output out enable d = (r, d')"
  shows "\<exists>n1 n2 m. wrote d d' (n1 @ n2) \<and>
           d' = d\<lparr>regOUTENx := outen_after out enable (regOUTENx d),
                  regQxDIS := qdis_after out enable (regQxDIS d), regmap := m\<rparr> \<and>
           n1 \<noteq> [] \<and>
           (\<forall>x \<in> set n1. fst x = IDT24x_REG_OUTEN \<and>
                 fst (snd x) = ucast (outen_after out enable (regOUTENx d))) \<and>
           (\<forall>x \<in> set n2. fst x = IDT24x_REG_Q_DIS \<and>
                 fst (snd x) = ucast (qdis_after out enable (regQxDIS d))) \<and>
           (\<forall>x \<in> set (butlast n1). snd (snd x) \<noteq> 0) \<and>
           (\<forall>x \<in> set (butlast n2). snd (snd x) \<noteq> 0) \<and>
           (n2 \<noteq> [] \<longleftrightarrow> snd (snd (last n1)) = 0) \<and>
           (r = Inr () \<longleftrightarrow> n2 \<noteq> [] \<and> snd (snd (last n2)) = 0) \<and>
           (replies (regmap d) = [] \<longrightarrow>
              n1 = [(IDT24x_REG_OUTEN, ucast (outen_after out enable (regOUTENx d)), 0)] \<and>
              n2 = [(IDT24x_REG_Q_DIS, ucast (qdis_after out enable (regQxDIS d)), 0)])"
proof -
  define d4 where "d4 = d\<lparr>regOUTENx := outen_after out enable (regOUTENx d),
          regQxDIS := qdis_after out enable (regQxDIS d)\<rparr>"
  have run': "run_steps [write_reg IDT24x_REG_OUTEN (\<lambda>d. ucast (regOUTENx d)),
                write_reg IDT24x_REG_Q_DIS (\<lambda>d. ucast (regQxDIS d))] d4 = (r, d')"
    using run by (simp only: enable_output_eq [OF lt] d4_def)
  obtain r1 d5 where w1: "write_reg IDT24x_REG_OUTEN (\<lambda>d. ucast (regOUTENx d)) d4 = (r1, d5)"
    by (cases "write_reg IDT24x_REG_OUTEN (\<lambda>d. ucast (regOUTENx d)) d4")
  obtain n1 m1 where n1: "wrote d4 d5 n1" "d5 = d4\<lparr>regmap := m1\<rparr>" "n1 \<noteq> []"
    "\<forall>x \<in> set n1. fst x = IDT24x_REG_OUTEN \<and> fst (snd x) = ucast (regOUTENx d4)"
    "\<forall>x \<in> set (butlast n1). snd (snd x) \<noteq> 0"
    "r1 = (if snd (snd (last n1)) = 0 then Inr () else Inl (EBUS (snd (snd (last n1)))))"
    using write_reg_outcomes [OF w1] by blast
  have t4: "trace (regmap d4) = trace (regmap d)" and rp4: "replies (regmap d4) = replies (regmap d)"
    by (simp_all add: d4_def)
  have nf1: "n1 = [(IDT24x_REG_OUTEN, ucast (regOUTENx d4), 0)] \<and> replies (regmap d5) = []"
    if "replies (regmap d) = []"
  proof -
    have "replies (regmap d4) = []" using that rp4 by simp
    then have "d5 = d4\<lparr>regmap := (regmap d4)\<lparr>trace := trace (regmap d4) @
        [(IDT24x_REG_OUTEN, ucast (regOUTENx d4), 0)]\<rparr>\<rparr>"
      using w1 by (simp add: write_reg_no_fail)
    then show ?thesis using n1(1) \<open>replies (regmap d4) = []\<close> by (simp add: wrote_def)
  qed
  show ?thesis
  proof (cases "snd (snd (last n1)) = 0")
    case False
    then have "r1 = Inl (EBUS (snd (snd (last n1))))" using n1(6) by simp
    then have r: "d' = d5" "r = Inl (EBUS (snd (snd (last n1))))" using run' w1 by simp_all
    have nofail: "replies (regmap d) \<noteq> []" using nf1 False by auto
    show ?thesis
      apply (rule exI [of _ n1], rule exI [of _ "[]"], rule exI [of _ m1])
      using n1 t4 r False nofail by (simp add: wrote_def d4_def)
  next
    case True
    then have "r1 = Inr ()" using n1(6) by simp
    then have w2: "write_reg IDT24x_REG_Q_DIS (\<lambda>d. ucast (regQxDIS d)) d5 = (r, d')"
      using run' w1 by (simp split: prod.splits sum.splits)
    obtain n2 m2 where n2: "wrote d5 d' n2" "d' = d5\<lparr>regmap := m2\<rparr>" "n2 \<noteq> []"
      "\<forall>x \<in> set n2. fst x = IDT24x_REG_Q_DIS \<and> fst (snd x) = ucast (regQxDIS d5)"
      "\<forall>x \<in> set (butlast n2). snd (snd x) \<noteq> 0"
      "r = (if snd (snd (last n2)) = 0 then Inr () else Inl (EBUS (snd (snd (last n2)))))"
      using write_reg_outcomes [OF w2] by blast
    have w: "wrote d d' (n1 @ n2)" using n1(1) n2(1) t4 by (simp add: wrote_def)
    have nf2: "n2 = [(IDT24x_REG_Q_DIS, ucast (regQxDIS d5), 0)]" if "replies (regmap d) = []"
    proof -
      have "replies (regmap d5) = []" using nf1 [OF that] by simp
      then have "d' = d5\<lparr>regmap := (regmap d5)\<lparr>trace := trace (regmap d5) @
          [(IDT24x_REG_Q_DIS, ucast (regQxDIS d5), 0)]\<rparr>\<rparr>"
        using w2 by (simp add: write_reg_no_fail)
      then show ?thesis using n2(1) by (simp add: wrote_def)
    qed
    have rr: "r = Inr () \<longleftrightarrow> n2 \<noteq> [] \<and> snd (snd (last n2)) = 0"
      using n2(3,6) by (simp split: if_splits)
    have q5: "regQxDIS d5 = qdis_after out enable (regQxDIS d)"
      and o4: "regOUTENx d4 = outen_after out enable (regOUTENx d)"
      by (simp_all add: n1(2) d4_def)
    show ?thesis
      apply (rule exI [of _ n1], rule exI [of _ n2], rule exI [of _ m2], intro conjI)
      subgoal by (rule w)
      subgoal by (simp add: n2(2) n1(2) d4_def)
      subgoal by (rule n1(3))
      subgoal using n1(4) by (simp add: o4)
      subgoal using n2(4) by (simp add: q5)
      subgoal by (rule n1(5))
      subgoal by (rule n2(5))
      subgoal using True n2(3) by simp
      subgoal by (rule rr)
      subgoal using nf1 nf2 by (simp add: o4 q5)
      done
  qed
qed

lemma bit_ucast_u8_u32: "bit (ucast (w :: u8) :: u32) n \<longleftrightarrow> bit w n"
  by (auto simp: bit_simps dest: bit_imp_le_length)

lemma enable_output_bus:
  assumes lt: "out < 4" and run: "idt24x_enable_output out en d = (r, d')"
  shows "d' = d\<lparr>regOUTENx := regOUTENx d', regQxDIS := regQxDIS d', regmap := regmap d'\<rparr> \<and>
         (\<forall>n. bit (regOUTENx d') n = (if n = unat out then en else bit (regOUTENx d) n)) \<and>
         (\<forall>n. bit (regQxDIS d') n = (if n = unat out then \<not> en else bit (regQxDIS d) n)) \<and>
         (\<exists>n1 n2. wrote d d' (n1 @ n2) \<and> n1 \<noteq> [] \<and>
            (\<forall>x \<in> set n1. fst x = IDT24x_REG_OUTEN \<and> fst (snd x) = ucast (regOUTENx d')) \<and>
            (\<forall>x \<in> set n2. fst x = IDT24x_REG_Q_DIS \<and> fst (snd x) = ucast (regQxDIS d')) \<and>
            (\<forall>x \<in> set n1. \<forall>n. n \<noteq> unat out \<longrightarrow> bit (fst (snd x)) n = bit (regOUTENx d) n) \<and>
            (\<forall>x \<in> set n2. \<forall>n. n \<noteq> unat out \<longrightarrow> bit (fst (snd x)) n = bit (regQxDIS d) n) \<and>
            (n2 \<noteq> [] \<longleftrightarrow> snd (snd (last n1)) = 0) \<and>
            (r = Inr () \<longleftrightarrow> n2 \<noteq> [] \<and> snd (snd (last n2)) = 0) \<and>
            (replies (regmap d) = [] \<longrightarrow>
               n1 = [(IDT24x_REG_OUTEN, ucast (regOUTENx d'), 0)] \<and>
               n2 = [(IDT24x_REG_Q_DIS, ucast (regQxDIS d'), 0)]))"
proof -
  have o8: "unat out < 8" by (rule unat_output_lt [OF lt])
  obtain n1 n2 m where t: "wrote d d' (n1 @ n2)"
    "d' = d\<lparr>regOUTENx := outen_after out en (regOUTENx d),
           regQxDIS := qdis_after out en (regQxDIS d), regmap := m\<rparr>"
    "n1 \<noteq> []"
    "\<forall>x \<in> set n1. fst x = IDT24x_REG_OUTEN \<and>
          fst (snd x) = ucast (outen_after out en (regOUTENx d))"
    "\<forall>x \<in> set n2. fst x = IDT24x_REG_Q_DIS \<and>
          fst (snd x) = ucast (qdis_after out en (regQxDIS d))"
    "n2 \<noteq> [] \<longleftrightarrow> snd (snd (last n1)) = 0"
    "r = Inr () \<longleftrightarrow> n2 \<noteq> [] \<and> snd (snd (last n2)) = 0"
    "replies (regmap d) = [] \<longrightarrow>
       n1 = [(IDT24x_REG_OUTEN, ucast (outen_after out en (regOUTENx d)), 0)] \<and>
       n2 = [(IDT24x_REG_Q_DIS, ucast (qdis_after out en (regQxDIS d)), 0)]"
    using enable_output_traffic [OF lt run] by blast
  have o: "regOUTENx d' = outen_after out en (regOUTENx d)"
    and q: "regQxDIS d' = qdis_after out en (regQxDIS d)"
    by (simp_all add: t(2))
  have c1: "d' = d\<lparr>regOUTENx := regOUTENx d', regQxDIS := regQxDIS d', regmap := regmap d'\<rparr>"
    by (simp add: t(2))
  have c2: "\<forall>n. bit (regOUTENx d') n = (if n = unat out then en else bit (regOUTENx d) n)"
    using o8 by (simp add: o bit_outen_after)
  have c3: "\<forall>n. bit (regQxDIS d') n = (if n = unat out then \<not> en else bit (regQxDIS d) n)"
    using o8 by (simp add: q bit_qdis_after)
  have f1: "\<forall>x \<in> set n1. \<forall>n. n \<noteq> unat out \<longrightarrow> bit (fst (snd x)) n = bit (regOUTENx d) n"
    using t(4) by (simp add: bit_ucast_u8_u32 bit_outen_after)
  have f2: "\<forall>x \<in> set n2. \<forall>n. n \<noteq> unat out \<longrightarrow> bit (fst (snd x)) n = bit (regQxDIS d) n"
    using t(5) by (simp add: bit_ucast_u8_u32 bit_qdis_after)
  have c4: "\<exists>n1 n2. wrote d d' (n1 @ n2) \<and> n1 \<noteq> [] \<and>
            (\<forall>x \<in> set n1. fst x = IDT24x_REG_OUTEN \<and> fst (snd x) = ucast (regOUTENx d')) \<and>
            (\<forall>x \<in> set n2. fst x = IDT24x_REG_Q_DIS \<and> fst (snd x) = ucast (regQxDIS d')) \<and>
            (\<forall>x \<in> set n1. \<forall>n. n \<noteq> unat out \<longrightarrow> bit (fst (snd x)) n = bit (regOUTENx d) n) \<and>
            (\<forall>x \<in> set n2. \<forall>n. n \<noteq> unat out \<longrightarrow> bit (fst (snd x)) n = bit (regQxDIS d) n) \<and>
            (n2 \<noteq> [] \<longleftrightarrow> snd (snd (last n1)) = 0) \<and>
            (r = Inr () \<longleftrightarrow> n2 \<noteq> [] \<and> snd (snd (last n2)) = 0) \<and>
            (replies (regmap d) = [] \<longrightarrow>
               n1 = [(IDT24x_REG_OUTEN, ucast (regOUTENx d'), 0)] \<and>
               n2 = [(IDT24x_REG_Q_DIS, ucast (regQxDIS d'), 0)])"
    apply (rule exI [of _ n1], rule exI [of _ n2])
    using t(1,3,4,5,6,7,8) f1 f2 unfolding o q by blast
  show ?thesis using c1 c2 c3 c4 by blast
qed


lemma replies_after_enable_1:
  "replies (regmap (snd (idt24x_enable_output 1 True probed))) = []"
  by code_simp


text \<open>
  C7. For two distinct outputs \<open>i\<close> and \<open>j\<close> among 0 to 3 and any starting state, after
  \<open>idt24x_enable_output\<close> for \<open>i\<close> and then for \<open>j\<close>, both with \<open>enable\<close>, the enable bit
  of \<open>i\<close> is set in the shadow enable byte, the second call begins its bus traffic with a
  write of the enable register, and every value it sends to that register has the bit of
  \<open>i\<close> set. In any call, for any output and state, the bits of both shadow bytes at
  positions other than the output's are as they were. In any call for an output among 0 to
  3 the state changes in the two shadow bytes and the bus only; in the new enable shadow the
  bit of the output is \<open>enable\<close>, in the new disable shadow it is the negation, and every
  other bit of either is as it was; the bus receives nothing but writes of the enable
  register carrying the new enable shadow, followed, once one of them has succeeded, by
  writes of the disable register carrying the new disable shadow, so that every byte sent to
  either register has the bits of the other outputs as the shadow of that register had them
  before the call; the call returns 0 exactly when a write of the disable register
  succeeded, and on a bus that accepts every write the traffic is these two writes. For an
  output number of 4 or more the call returns \<open>-EINVAL\<close> and changes nothing.
\<close>

theorem enable_output_keeps_other_outputs:
  assumes i: "i < 4" and j: "j < 4" and ne: "i \<noteq> j"
    and run1: "idt24x_enable_output i True data = (r1, data1)"
    and run2: "idt24x_enable_output j True data1 = (r2, data2)"
  shows "bit (regOUTENx data2) (unat i) \<and>
         (\<exists>new. wrote data1 data2 new \<and> new \<noteq> [] \<and> fst (hd new) = IDT24x_REG_OUTEN \<and>
            (\<forall>x \<in> set new. fst x = IDT24x_REG_OUTEN \<longrightarrow> bit (fst (snd x)) (unat i))) \<and>
         (\<forall>out en d r d' n. idt24x_enable_output out en d = (r, d') \<and> n \<noteq> unat out \<longrightarrow>
            bit (regOUTENx d') n = bit (regOUTENx d) n \<and>
            bit (regQxDIS d') n = bit (regQxDIS d) n) \<and>
         (\<forall>out en d r d'. out < 4 \<and> idt24x_enable_output out en d = (r, d') \<longrightarrow>
            d' = d\<lparr>regOUTENx := regOUTENx d', regQxDIS := regQxDIS d', regmap := regmap d'\<rparr> \<and>
            (\<forall>n. bit (regOUTENx d') n = (if n = unat out then en else bit (regOUTENx d) n)) \<and>
            (\<forall>n. bit (regQxDIS d') n = (if n = unat out then \<not> en else bit (regQxDIS d) n)) \<and>
            (\<exists>n1 n2. wrote d d' (n1 @ n2) \<and> n1 \<noteq> [] \<and>
               (\<forall>x \<in> set n1. fst x = IDT24x_REG_OUTEN \<and> fst (snd x) = ucast (regOUTENx d')) \<and>
               (\<forall>x \<in> set n2. fst x = IDT24x_REG_Q_DIS \<and> fst (snd x) = ucast (regQxDIS d')) \<and>
               (\<forall>x \<in> set n1. \<forall>n. n \<noteq> unat out \<longrightarrow>
                   bit (fst (snd x)) n = bit (regOUTENx d) n) \<and>
               (\<forall>x \<in> set n2. \<forall>n. n \<noteq> unat out \<longrightarrow>
                   bit (fst (snd x)) n = bit (regQxDIS d) n) \<and>
               (n2 \<noteq> [] \<longleftrightarrow> snd (snd (last n1)) = 0) \<and>
               (r = Inr () \<longleftrightarrow> n2 \<noteq> [] \<and> snd (snd (last n2)) = 0) \<and>
               (replies (regmap d) = [] \<longrightarrow>
                  n1 = [(IDT24x_REG_OUTEN, ucast (regOUTENx d'), 0)] \<and>
                  n2 = [(IDT24x_REG_Q_DIS, ucast (regQxDIS d'), 0)]))) \<and>
         (\<forall>out en d. \<not> out < 4 \<longrightarrow> idt24x_enable_output out en d = (Inl EINVAL, d))"
proof -
  have i8: "unat i < 8" by (rule unat_output_lt [OF i])
  have nij: "unat i \<noteq> unat j" using ne by (simp add: word_unat_eq_iff)
  obtain m1 where d1: "data1 = data\<lparr>regOUTENx := outen_after i True (regOUTENx data),
                  regQxDIS := qdis_after i True (regQxDIS data), regmap := m1\<rparr>"
    using enable_output_effect [OF i run1] by blast
  have b1: "bit (regOUTENx data1) (unat i)" using i8 by (simp add: d1 bit_outen_after)
  obtain new m2 where e2: "wrote data1 data2 new"
    "data2 = data1\<lparr>regOUTENx := outen_after j True (regOUTENx data1),
                  regQxDIS := qdis_after j True (regQxDIS data1), regmap := m2\<rparr>"
    "new \<noteq> []"
    "hd new = (IDT24x_REG_OUTEN, ucast (outen_after j True (regOUTENx data1)),
                     snd (snd (hd new)))"
    "\<forall>x \<in> set new.
              (fst x = IDT24x_REG_OUTEN \<and>
                 fst (snd x) = ucast (outen_after j True (regOUTENx data1))) \<or>
              (fst x = (IDT24x_REG_Q_DIS :: u32) \<and>
                 fst (snd x) = ucast (qdis_after j True (regQxDIS data1)))"
    using enable_output_effect [OF j run2] by blast
  have b2: "bit (outen_after j True (regOUTENx data1)) (unat i)"
    using b1 nij by (simp add: bit_outen_after)
  then have b3: "bit (ucast (outen_after j True (regOUTENx data1)) :: u32) (unat i)"
    using i8 by (simp add: bit_simps)
  have regs: "(IDT24x_REG_Q_DIS :: u32) \<noteq> IDT24x_REG_OUTEN"
    by (simp add: IDT24x_REG_Q_DIS_def IDT24x_REG_OUTEN_def)
  have "\<forall>x \<in> set new. fst x = IDT24x_REG_OUTEN \<longrightarrow> bit (fst (snd x)) (unat i)"
    using e2(5) b3 regs by auto
  moreover have "fst (hd new) = IDT24x_REG_OUTEN" using e2(4) by (metis fst_conv)
  moreover have "bit (regOUTENx data2) (unat i)" using b2 by (simp add: e2(2))
  ultimately have p12: "bit (regOUTENx data2) (unat i) \<and>
         (\<exists>new. wrote data1 data2 new \<and> new \<noteq> [] \<and> fst (hd new) = IDT24x_REG_OUTEN \<and>
            (\<forall>x \<in> set new. fst x = IDT24x_REG_OUTEN \<longrightarrow> bit (fst (snd x)) (unat i)))"
    using e2(1,3) by blast
  have p3: "\<forall>out en d r d' n. idt24x_enable_output out en d = (r, d') \<and> n \<noteq> unat out \<longrightarrow>
            bit (regOUTENx d') n = bit (regOUTENx d) n \<and>
            bit (regQxDIS d') n = bit (regQxDIS d) n"
    using enable_output_frame by blast
  have p5: "\<forall>out en d. \<not> out < 4 \<longrightarrow> idt24x_enable_output out en d = (Inl EINVAL, d)"
    by (simp add: enable_output_invalid)
  show ?thesis
    apply (intro conjI)
    subgoal using p12 by (rule conjunct1)
    subgoal using p12 by (rule conjunct2)
    subgoal by (rule p3)
    subgoal by (intro allI impI, erule conjE, rule enable_output_bus)
    subgoal by (rule p5)
    done
qed


theorem enable_output_keeps_other_outputs_witness:
  "(1 :: u8) < 4 \<and> (2 :: u8) < 4 \<and> (1 :: u8) \<noteq> 2 \<and>
   bit (regOUTENx (snd (idt24x_enable_output 2 True
                         (snd (idt24x_enable_output 1 True probed))))) (unat (1 :: u8)) \<and>
   (\<exists>new. wrote (snd (idt24x_enable_output 1 True probed))
             (snd (idt24x_enable_output 2 True (snd (idt24x_enable_output 1 True probed)))) new \<and>
      new \<noteq> [] \<and> fst (hd new) = IDT24x_REG_OUTEN \<and>
      (\<forall>x \<in> set new. fst x = IDT24x_REG_OUTEN \<longrightarrow> bit (fst (snd x)) (unat (1 :: u8)))) \<and>
   wrote (snd (idt24x_enable_output 1 True probed))
         (snd (idt24x_enable_output 2 True (snd (idt24x_enable_output 1 True probed))))
         [(IDT24x_REG_OUTEN, ucast (regOUTENx (snd (idt24x_enable_output 2 True
                         (snd (idt24x_enable_output 1 True probed))))), 0),
          (IDT24x_REG_Q_DIS, ucast (regQxDIS (snd (idt24x_enable_output 2 True
                         (snd (idt24x_enable_output 1 True probed))))), 0)] \<and>
   bit (regQxDIS (snd (idt24x_enable_output 2 True
                         (snd (idt24x_enable_output 1 True probed))))) 3 =
     bit (regQxDIS (snd (idt24x_enable_output 1 True probed))) 3"
proof -
  have h1: "(1 :: u8) < 4" and h2: "(2 :: u8) < 4" and h3: "(1 :: u8) \<noteq> 2" by simp_all
  note T = enable_output_keeps_other_outputs [OF h1 h2 h3 prod.collapse [symmetric]
        prod.collapse [symmetric], of probed]
  let ?d1 = "snd (idt24x_enable_output 1 True probed)"
  let ?d2 = "snd (idt24x_enable_output 2 True ?d1)"
  have a: "bit (regOUTENx ?d2) (unat (1 :: u8))" using T by (rule conjunct1)
  have b: "\<exists>new. wrote ?d1 ?d2 new \<and>
      new \<noteq> [] \<and> fst (hd new) = IDT24x_REG_OUTEN \<and>
      (\<forall>x \<in> set new. fst x = IDT24x_REG_OUTEN \<longrightarrow> bit (fst (snd x)) (unat (1 :: u8)))"
    using T [THEN conjunct2] by (rule conjunct1)
  have g: "(2 :: u8) < 4 \<and> idt24x_enable_output 2 True ?d1 =
              (fst (idt24x_enable_output 2 True ?d1), ?d2)" by simp
  note G = T [THEN conjunct2, THEN conjunct2, THEN conjunct2, THEN conjunct1,
      THEN spec, THEN spec, THEN spec, THEN spec, THEN spec, THEN mp, OF g]
  have u2: "unat (2 :: u8) = 2" by simp
  have c: "wrote ?d1 ?d2 [(IDT24x_REG_OUTEN, ucast (regOUTENx ?d2), 0),
          (IDT24x_REG_Q_DIS, ucast (regQxDIS ?d2), 0)]"
    using G replies_after_enable_1 by auto
  have d: "bit (regQxDIS ?d2) 3 = bit (regQxDIS ?d1) 3"
    using G by (simp add: u2)
  show ?thesis using h1 h2 h3 a b c d by blast
qed

lemma enable_1_then_2:
  "regOUTENx (snd (idt24x_enable_output 2 True (snd (idt24x_enable_output 1 True probed)))) = 6 \<and>
   trace (regmap (snd (idt24x_enable_output 2 True (snd (idt24x_enable_output 1 True probed)))))
     = [(0x39, 2, 0), (0x6F, 0x0D, 0), (0x39, 6, 0), (0x6F, 9, 0)]"
  by code_simp












lemma update_device_trace_125MHz:
  "map (\<lambda>(reg, val, e). (reg, val)) (take 5 (trace (regmap (snd (idt24x_update_device divs_125MHz q2_125MHz)))))
     = [(0x25, 0), (0x26, 70), (0x28, 0), (0x29, 0), (0x2A, 0)]"
  by code_simp

text \<open>
  C6 on the code. With the shadow of DSM_INT_8 at \<open>0x00\<close> and the shadow of DSMFRAC_20_16
  at \<open>0xE5\<close>, applying the dividers computed for 125 MHz sends \<open>0x00\<close> to register
  \<open>0x28\<close> (DSMFRAC_20_16) as the third transaction: the byte merged is the shadow of
  DSM_INT_8. Merged with the register's own shadow the value is \<open>0xE0\<close>.
\<close>

theorem update_device_dsmfrac_wrong_shadow:
  "regDSM_INT_8 q2_125MHz = 0x00 \<and> regDSMFRAC_20_16 q2_125MHz = 0xE5 \<and>
   idt24x_calc_divs q2_125MHz stack_divs = Some (Inr divs_125MHz) \<and>
   trace (regmap (snd (idt24x_update_device divs_125MHz q2_125MHz))) ! 2 = (0x28, 0x00, 0) \<and>
   i2cwritewithmask_val 0 (regDSMFRAC_20_16 q2_125MHz) IDT24x_REG_DSMFRAC_20_16_MASK = 0xE0 \<and>
   i2cwritewithmask_val 0 (regDSM_INT_8 q2_125MHz) IDT24x_REG_DSMFRAC_20_16_MASK = 0x00"
proof -
  have a: "regDSM_INT_8 q2_125MHz = 0x00 \<and> regDSMFRAC_20_16 q2_125MHz = 0xE5"
    by (simp add: q2_125MHz_def probed_def)
  have b: "idt24x_calc_divs q2_125MHz stack_divs = Some (Inr divs_125MHz)"
    by (simp add: calc_divs_q2_125MHz stack_divs_def divs_125MHz_def)
  have c: "trace (regmap (snd (idt24x_update_device divs_125MHz q2_125MHz))) ! 2 = (0x28, 0x00, 0)"
    by code_simp
  have d: "i2cwritewithmask_val 0 (regDSMFRAC_20_16 q2_125MHz) IDT24x_REG_DSMFRAC_20_16_MASK = 0xE0"
    by code_simp
  have e: "i2cwritewithmask_val 0 (regDSM_INT_8 q2_125MHz) IDT24x_REG_DSMFRAC_20_16_MASK = 0x00"
    by code_simp
  show ?thesis using a b c d e by blast
qed

lemma run_steps_write_ok:
  assumes "run_steps (write_reg reg val # fs) d = (Inr (), d')"
  shows "\<exists>d1 n1 m. wrote d d1 n1 \<and> d1 = d\<lparr>regmap := m\<rparr> \<and> (reg, val d, 0) \<in> set n1 \<and>
           run_steps fs d1 = (Inr (), d')"
proof -
  obtain d1 where s: "write_reg reg val d = (Inr (), d1)" and rest: "run_steps fs d1 = (Inr (), d')"
    using run_steps_Cons_ok [OF assms] by blast
  show ?thesis using write_reg_wrote [OF s] rest by blast
qed

lemma extends_update_output: "extends (update_output divs x)"
proof -
  have a: "extends (\<lambda>d. if frequencies d x \<noteq> 0 then
               (case idt24x_get_offsets (of_nat x) offsets_uninit of
                  Inl e \<Rightarrow> (Inl e, d)
                | Inr offsets \<Rightarrow> run_steps (fs offsets) d)
             else (Inr (), d))"
    if "\<And>offsets. extends (run_steps (fs offsets))" for fs
    unfolding extends_def
  proof (intro allI impI)
    fix d r d'
    assume run: "(if frequencies d x \<noteq> 0 then
               (case idt24x_get_offsets (of_nat x) offsets_uninit of
                  Inl e \<Rightarrow> (Inl e, d)
                | Inr offsets \<Rightarrow> run_steps (fs offsets) d)
             else (Inr (), d)) = (r, d')"
    show "\<exists>new. wrote d d' new"
    proof (cases "frequencies d x \<noteq> 0")
      case False
      then have "d' = d" using run by simp
      then show ?thesis using wrote_refl by blast
    next
      case True
      show ?thesis
      proof (cases "idt24x_get_offsets (of_nat x) offsets_uninit")
        case (Inl e)
        then have "d' = d" using run True by simp
        then show ?thesis using wrote_refl by blast
      next
        case (Inr offsets)
        then have "run_steps (fs offsets) d = (r, d')" using run True by simp
        then show ?thesis using that [of offsets] unfolding extends_def by blast
      qed
    qed
  qed
  show ?thesis
    unfolding update_output_def
    by (intro extends_run_steps ballI)
       (auto intro!: a extends_run_steps extends_write_reg extends_write_reg_masked
          extends_ignore_result extends_enable_output)
qed

lemma extends_update_device_tail:
  "extends (run_steps [ignore_result (\<lambda>d. idt24x_enable_output 0 (frequencies d 0 \<noteq> 0) d),
        update_output divs 1, update_output divs 2, update_output divs 3])"
  by (intro extends_run_steps ballI)
     (auto intro!: extends_ignore_result extends_enable_output extends_update_output)

lemma run_steps_writes_ok:
  assumes "run_steps (map (\<lambda>(reg, val). write_reg reg val) ws @ rest) d = (Inr (), d')"
    and "\<forall>(reg, val) \<in> set ws. \<forall>d m. val (d\<lparr>regmap := m\<rparr>) = val d"
  shows "\<exists>d1 n m. wrote d d1 n \<and> d1 = d\<lparr>regmap := m\<rparr> \<and>
           (\<forall>(reg, val) \<in> set ws. (reg, val d, 0) \<in> set n) \<and>
           run_steps rest d1 = (Inr (), d')"
  using assms
proof (induction ws arbitrary: d)
  case Nil
  have "d = d\<lparr>regmap := regmap d\<rparr>" by simp
  then show ?case
    using Nil wrote_refl [of d] by (intro exI [of _ d] exI [of _ "[]"] exI [of _ "regmap d"]) simp
next
  case (Cons w ws)
  obtain reg val where w: "w = (reg, val)" by (cases w)
  have run: "run_steps (write_reg reg val # (map (\<lambda>(reg, val). write_reg reg val) ws @ rest)) d
      = (Inr (), d')"
    using Cons.prems(1) by (simp add: w)
  obtain d1 n1 m1 where s1: "wrote d d1 n1" "d1 = d\<lparr>regmap := m1\<rparr>" "(reg, val d, 0) \<in> set n1"
    and run1: "run_steps (map (\<lambda>(reg, val). write_reg reg val) ws @ rest) d1 = (Inr (), d')"
    using run_steps_write_ok [OF run] by blast
  have ind: "\<forall>(reg, val) \<in> set ws. \<forall>d m. val (d\<lparr>regmap := m\<rparr>) = val d"
    using Cons.prems(2) by simp
  obtain d2 n2 m2 where s2: "wrote d1 d2 n2" "d2 = d1\<lparr>regmap := m2\<rparr>"
    "\<forall>(reg, val) \<in> set ws. (reg, val d1, 0) \<in> set n2"
    and run2: "run_steps rest d2 = (Inr (), d')"
    using Cons.IH [OF run1 ind] by blast
  have same: "\<forall>(reg, val) \<in> set ws. val d1 = val d" using ind s1(2) by auto
  have tl: "\<forall>(reg, val) \<in> set ws. (reg, val d, 0) \<in> set n2"
    using s2(3) same by fastforce
  have "wrote d d2 (n1 @ n2)" by (rule wrote_trans [OF s1(1) s2(1)])
  moreover have "d2 = d\<lparr>regmap := m2\<rparr>" by (simp add: s1(2) s2(2))
  moreover have "\<forall>(reg, val) \<in> set (w # ws). (reg, val d, 0) \<in> set (n1 @ n2)"
    using s1(3) tl by (auto simp: w)
  ultimately show ?case using run2 by blast
qed

text \<open>
  C10. After a successful calculation the fields \<open>ns1_q0\<close> and \<open>ns2_q0\<close> of the result
  are 0; and a successful \<open>idt24x_update_device\<close> with these dividers has written, each in
  a transaction that succeeded, the shadow of NS1_Q0 with its two low bits (the first-stage
  divider field) cleared to register NS1_Q0, and 0 to both NS2_Q0 registers.
\<close>

theorem update_device_zeroes_q0_divider:
  assumes calc: "idt24x_calc_divs data divs0 = Some (Inr divs)"
    and appl: "idt24x_update_device divs data = (Inr (), data')"
  shows "ns1_q0 divs = 0 \<and> ns2_q0 divs = 0 \<and>
         (\<exists>new. wrote data data' new \<and>
            (IDT24x_REG_NS1_Q0, ucast (regNS1_Q0 data) AND NOT 3, 0) \<in> set new \<and>
            (IDT24x_REG_NS2_Q0_15_8, 0, 0) \<in> set new \<and>
            (IDT24x_REG_NS2_Q0_7_0, 0, 0) \<in> set new)"
proof -
  have z: "ns1_q0 divs = 0" "ns2_q0 divs = 0" using calc_divs_q0_fields [OF calc] by simp_all
  define ws :: "(u32 \<times> (clk_idt24x \<Rightarrow> u32)) list" where "ws =
    [(IDT24x_REG_DSM_INT_8,
        \<lambda>d. i2cwritewithmask_val
               (ucast (drop_bit 8 (ucast (dsmint divs) :: u32) AND ucast IDT24x_REG_DSM_INT_8_MASK))
               (regDSM_INT_8 d) IDT24x_REG_DSM_INT_8_MASK),
     (IDT24x_REG_DSM_INT_7_0, \<lambda>_. ucast (dsmint divs) AND 0xFF),
     (IDT24x_REG_DSMFRAC_20_16,
        \<lambda>d. i2cwritewithmask_val
               (ucast (drop_bit 16 (dsmfrac divs) AND ucast IDT24x_REG_DSMFRAC_20_16_MASK))
               (regDSM_INT_8 d) IDT24x_REG_DSMFRAC_20_16_MASK),
     (IDT24x_REG_DSMFRAC_15_8, \<lambda>_. drop_bit 8 (dsmfrac divs) AND 0xFF),
     (IDT24x_REG_DSMFRAC_7_0, \<lambda>_. dsmfrac divs AND 0xFF),
     (IDT24x_REG_NS1_Q0,
        \<lambda>d. i2cwritewithmask_val
               (ucast (drop_bit 8 (ucast (ns1_q0 divs) :: u32) AND ucast IDT24x_REG_NS1_Q0_MASK))
               (regNS1_Q0 d) IDT24x_REG_NS1_Q0_MASK),
     (IDT24x_REG_NS2_Q0_15_8, \<lambda>_. drop_bit 8 (ucast (ns2_q0 divs) :: u32) AND 0xFF),
     (IDT24x_REG_NS2_Q0_7_0, \<lambda>_. ucast (ns2_q0 divs) AND 0xFF)]"
  define rest where "rest =
    [ignore_result (\<lambda>d. idt24x_enable_output 0 (frequencies d 0 \<noteq> 0) d),
     update_output divs 1, update_output divs 2, update_output divs 3]"
  have run: "run_steps (map (\<lambda>(reg, val). write_reg reg val) ws @ rest) data = (Inr (), data')"
    using appl by (simp add: idt24x_update_device_def write_reg_masked_eq ws_def rest_def)
  have indep: "\<forall>(reg, val) \<in> set ws. \<forall>d m. val (d\<lparr>regmap := m\<rparr>) = val d"
    by (simp add: ws_def)
  obtain d1 n where s: "wrote data d1 n"
    "\<forall>(reg, val) \<in> set ws. (reg, val data, 0) \<in> set n"
    and run1: "run_steps rest d1 = (Inr (), data')"
    using run_steps_writes_ok [OF run indep] by blast
  obtain n9 where s9: "wrote d1 data' n9"
    using extends_update_device_tail [of divs] run1 unfolding extends_def rest_def by blast
  have w: "wrote data data' (n @ n9)" by (rule wrote_trans [OF s(1) s9])
  have v6: "i2cwritewithmask_val 0 (regNS1_Q0 data) IDT24x_REG_NS1_Q0_MASK
      = ucast (regNS1_Q0 data) AND NOT 3"
    by (simp add: i2cwritewithmask_val_def merge_field_def IDT24x_REG_NS1_Q0_MASK_def)
  have "(IDT24x_REG_NS1_Q0, ucast (regNS1_Q0 data) AND NOT 3, 0) \<in> set (n @ n9)"
    "(IDT24x_REG_NS2_Q0_15_8, 0, 0) \<in> set (n @ n9)"
    "(IDT24x_REG_NS2_Q0_7_0, 0, 0) \<in> set (n @ n9)"
    using s(2) by (simp_all add: ws_def z v6)
  then show ?thesis using z w by blast
qed

lemma update_device_125MHz_ok: "fst (idt24x_update_device divs_125MHz q2_125MHz) = Inr ()"
  by code_simp

theorem update_device_zeroes_q0_divider_witness:
  "idt24x_calc_divs q2_125MHz stack_divs = Some (Inr divs_125MHz) \<and>
   idt24x_update_device divs_125MHz q2_125MHz
     = (Inr (), snd (idt24x_update_device divs_125MHz q2_125MHz)) \<and>
   ns1_q0 divs_125MHz = 0 \<and> ns2_q0 divs_125MHz = 0 \<and>
   (\<exists>new. wrote q2_125MHz (snd (idt24x_update_device divs_125MHz q2_125MHz)) new \<and>
      (IDT24x_REG_NS1_Q0, ucast (regNS1_Q0 q2_125MHz) AND NOT 3, 0) \<in> set new \<and>
      (IDT24x_REG_NS2_Q0_15_8, 0, 0) \<in> set new \<and>
      (IDT24x_REG_NS2_Q0_7_0, 0, 0) \<in> set new)"
proof -
  have h1: "idt24x_calc_divs q2_125MHz stack_divs = Some (Inr divs_125MHz)"
    by (simp add: calc_divs_q2_125MHz stack_divs_def divs_125MHz_def)
  have h2: "idt24x_update_device divs_125MHz q2_125MHz
     = (Inr (), snd (idt24x_update_device divs_125MHz q2_125MHz))"
    using update_device_125MHz_ok by (metis prod.collapse)
  show ?thesis
    using h1 h2 update_device_zeroes_q0_divider [OF h1 h2] by blast
qed

end
